(* ===== verification/Prelude.thy ===== *)
theory Prelude
  imports Main "HOL-Library.Word" "HOL-Library.Monad_Syntax"
begin

text \<open>
  Shared vocabulary of the development: the Go types the program computes with, the
  slice and big-endian operations of the Go runtime and of \<open>encoding/binary\<close>, the
  wrap-around of Go's 64-bit \<open>int\<close>, and the error values that the packages under
  \<open>pkg/\<close> return. Everything here is generic: no component of the program is
  modelled in this theory.

  Conventions. A Go \<open>string\<close> is a list of bytes and is modelled as a HOL \<open>string\<close>
  (a \<open>char\<close> is one byte). A \<open>[]byte\<close> is a \<open>byte list\<close>. \<open>uint8/16/32/64\<close>
  are words of that width. A Go \<open>int\<close> or \<open>int64\<close> is an \<open>int\<close> in the range of 64-bit
  two's complement; where the code adds or multiplies such values the wrap-around is
  written with \<open>go_int\<close>. A fallible function returns \<open>go_error + 'a\<close>.
\<close>

section \<open>Types and hint collections\<close>

type_synonym byte = "8 word"
type_synonym u16 = "16 word"
type_synonym u32 = "32 word"
type_synonym u64 = "64 word"
type_synonym bytes = "byte list"

named_theorems slice_simps \<open>reading and writing byte slices\<close>
named_theorems be_simps \<open>big-endian encoding and decoding\<close>
named_theorems go_range \<open>values that fit Go's 64-bit integers\<close>

section \<open>Go's 64-bit signed integers\<close>

definition min_int64 :: int where
  "min_int64 = - (2 ^ 63)"

definition max_int64 :: int where
  "max_int64 = 2 ^ 63 - 1"

definition in_int64 :: "int \<Rightarrow> bool" where
  "in_int64 x \<longleftrightarrow> min_int64 \<le> x \<and> x \<le> max_int64"

text \<open>The value of an \<open>int64\<close> expression whose exact result is \<open>x\<close>.\<close>

definition go_int :: "int \<Rightarrow> int" where
  "go_int x = (x + 2 ^ 63) mod 2 ^ 64 - 2 ^ 63"

lemma go_int_in_int64 [simp, go_range]: "in_int64 (go_int x)"
proof -
  have "0 \<le> (x + 2 ^ 63) mod (2 ^ 64 :: int)" and "(x + 2 ^ 63) mod 2 ^ 64 < (2 ^ 64 :: int)"
    by simp_all
  then show ?thesis
    unfolding in_int64_def go_int_def min_int64_def max_int64_def by simp
qed

lemma go_int_id: "in_int64 x \<Longrightarrow> go_int x = x"
  by (simp add: in_int64_def go_int_def min_int64_def max_int64_def)

text \<open>Go's integer division truncates towards zero.\<close>

definition go_div :: "int \<Rightarrow> int \<Rightarrow> int" where
  "go_div a b = sgn a * sgn b * (\<bar>a\<bar> div \<bar>b\<bar>)"

lemma go_div_nonneg: "0 \<le> a \<Longrightarrow> 0 < b \<Longrightarrow> go_div a b = a div b"
  by (cases "a = 0") (simp_all add: go_div_def)

definition go_mod :: "int \<Rightarrow> int \<Rightarrow> int" where
  "go_mod a b = a - b * go_div a b"

lemma go_mod_nonneg: "0 \<le> a \<Longrightarrow> 0 < b \<Longrightarrow> go_mod a b = a mod b"
  by (simp add: go_mod_def go_div_nonneg minus_mult_div_eq_mod)

section \<open>Slices\<close>

text \<open>
  \<open>subslice a b xs\<close> is Go's \<open>xs[a:b]\<close> (for \<open>a \<le> b \<le> len xs\<close>), and \<open>put_at i ys xs\<close> is
  the array \<open>xs\<close> after \<open>copy(xs[i:], ys)\<close> with \<open>ys\<close> inside the bounds.
\<close>

definition subslice :: "nat \<Rightarrow> nat \<Rightarrow> 'a list \<Rightarrow> 'a list" where
  "subslice a b xs = take (b - a) (drop a xs)"

definition put_at :: "nat \<Rightarrow> 'a list \<Rightarrow> 'a list \<Rightarrow> 'a list" where
  "put_at i ys xs = take i xs @ ys @ drop (i + length ys) xs"

lemma length_slice [slice_simps]: "b \<le> length xs \<Longrightarrow> length (subslice a b xs) = b - a"
  by (simp add: subslice_def)

lemma length_put_at [slice_simps]: "i + length ys \<le> length xs \<Longrightarrow> length (put_at i ys xs) = length xs"
  by (simp add: put_at_def)

lemma slice_append_left [slice_simps]: "b \<le> length xs \<Longrightarrow> subslice a b (xs @ ys) = subslice a b xs"
  by (cases "a \<le> b") (simp_all add: subslice_def)

lemma slice_append_right [slice_simps]:
  "length xs \<le> a \<Longrightarrow> subslice a b (xs @ ys) = subslice (a - length xs) (b - length xs) ys"
  by (simp add: subslice_def)

lemma slice_all [slice_simps]: "length xs \<le> b \<Longrightarrow> subslice 0 b xs = xs"
  by (simp add: subslice_def)

text \<open>A buffer filled from the left: what has been written, then the zeros that remain.\<close>

lemma put_at_fill:
  "length pre = i \<Longrightarrow> length ys \<le> k \<Longrightarrow>
    put_at i ys (pre @ replicate k z) = (pre @ ys) @ replicate (k - length ys) z"
  by (simp add: put_at_def)

section \<open>Big-endian integers\<close>

text \<open>\<open>binary.BigEndian.PutUintN\<close> writes \<open>be_put n\<close>; \<open>UintN\<close> reads \<open>be_get\<close>.\<close>

fun be_bytes :: "nat \<Rightarrow> nat \<Rightarrow> bytes" where
  "be_bytes 0 x = []"
| "be_bytes (Suc n) x = be_bytes n (x div 256) @ [of_nat (x mod 256)]"

definition be_nat :: "bytes \<Rightarrow> nat" where
  "be_nat bs = foldl (\<lambda>a b. a * 256 + unat b) 0 bs"

definition be_put :: "nat \<Rightarrow> 'a::len word \<Rightarrow> bytes" where
  "be_put n w = be_bytes n (unat w)"

definition be_get :: "bytes \<Rightarrow> 'a::len word" where
  "be_get bs = of_nat (be_nat bs)"

lemma length_be_bytes [simp]: "length (be_bytes n x) = n"
  by (induction n arbitrary: x) simp_all

lemma length_be_put [be_simps, simp]: "length (be_put n w) = n"
  by (simp add: be_put_def)

lemma be_nat_Nil [simp]: "be_nat [] = 0"
  by (simp add: be_nat_def)

lemma be_nat_snoc [simp]: "be_nat (bs @ [b]) = be_nat bs * 256 + unat b"
  by (simp add: be_nat_def)

lemma unat_byte_lt: "unat (b :: byte) < 256"
proof -
  have "unat b < 2 ^ LENGTH(8)"
    by (rule unsigned_less)
  then show ?thesis by simp
qed

lemma be_nat_less: "be_nat bs < 256 ^ length bs"
proof (induction bs rule: rev_induct)
  case (snoc b bs)
  have "be_nat (bs @ [b]) < be_nat bs * 256 + 256"
    using unat_byte_lt [of b] by simp
  also have "\<dots> = (be_nat bs + 1) * 256"
    by simp
  also have "\<dots> \<le> 256 ^ length bs * 256"
    using snoc.IH by (intro mult_le_mono1) simp
  finally show ?case by simp
qed simp

lemma be_nat_be_bytes: "be_nat (be_bytes n x) = x mod 256 ^ n"
proof (induction n arbitrary: x)
  case (Suc n)
  have "unat (of_nat (x mod 256) :: byte) = x mod 256"
    by (simp add: unat_of_nat)
  then have "be_nat (be_bytes (Suc n) x) = (x div 256 mod 256 ^ n) * 256 + x mod 256"
    by (simp add: Suc.IH)
  also have "\<dots> = x mod (256 * 256 ^ n)"
    by (simp add: mod_mult2_eq mult.commute)
  finally show ?case by simp
qed simp

lemma be_bytes_be_nat: "be_bytes (length bs) (be_nat bs) = bs"
proof (induction bs rule: rev_induct)
  case (snoc b bs)
  have "(be_nat bs * 256 + unat b) div 256 = be_nat bs"
    using unat_byte_lt [of b] by simp
  moreover have "(be_nat bs * 256 + unat b) mod 256 = unat b"
    using unat_byte_lt [of b] by simp
  ultimately show ?case
    using snoc.IH by simp
qed simp

lemma be_get_be_put [be_simps]:
  fixes w :: "'a::len word"
  assumes "LENGTH('a) \<le> 8 * n"
  shows "be_get (be_put n w) = w"
proof -
  have "unat w < 2 ^ LENGTH('a)"
    by (rule unsigned_less)
  also have "\<dots> \<le> 2 ^ (8 * n)"
    using assms by (intro power_increasing) simp_all
  also have "\<dots> = (256 :: nat) ^ n"
    by (simp add: power_mult)
  finally have "unat w mod 256 ^ n = unat w"
    by simp
  then show ?thesis
    by (simp add: be_get_def be_put_def be_nat_be_bytes)
qed

lemma unat_be_get:
  assumes "8 * length bs \<le> LENGTH('a)"
  shows "unat (be_get bs :: 'a::len word) = be_nat bs"
proof -
  have "be_nat bs < 256 ^ length bs"
    by (rule be_nat_less)
  also have "(256 :: nat) ^ length bs = 2 ^ (8 * length bs)"
    by (simp add: power_mult)
  also have "\<dots> \<le> 2 ^ LENGTH('a)"
    using assms by (intro power_increasing) simp_all
  finally show ?thesis
    by (simp add: be_get_def unat_of_nat)
qed

lemma be_put_be_get [be_simps]:
  assumes "8 * length bs \<le> LENGTH('a)" and "n = length bs"
  shows "be_put n (be_get bs :: 'a::len word) = bs"
  using assms by (simp add: be_put_def unat_be_get be_bytes_be_nat)

section \<open>Error values\<close>

text \<open>
  The errors that cross package boundaries. \<open>Errorf\<close> stands for \<open>fmt.Errorf\<close> or
  \<open>errors.New\<close> without a wrapped error: the format string and its integer and string
  arguments; \<open>Wrapf\<close> for \<open>fmt.Errorf("...: %w", err)\<close>. \<open>Errno\<close> is a kernel error
  number, \<open>IoTimeout\<close> the program's own \<open>timeoutErr\<close>, and \<open>Foreign\<close> an error of a
  package outside the repository: whether it implements \<open>net.Error\<close> with
  \<open>Timeout() = true\<close> is all that the program asks of it.
\<close>

datatype go_error =
    Errorf string "int list" "string list"
  | Wrapf string go_error
  | Canceled
  | DeadlineExceeded
  | ErrEOF
  | ErrUnexpectedEOF
  | IoTimeout
  | Errno nat
  | Foreign string bool

text \<open>\<open>errors.Is(err, target)\<close> for the comparable sentinel errors.\<close>

fun errors_is :: "go_error \<Rightarrow> go_error \<Rightarrow> bool" where
  "errors_is (Wrapf m e) t = (Wrapf m e = t \<or> errors_is e t)"
| "errors_is e t = (e = t)"

definition EINTR :: nat where "EINTR = 4"
definition EAGAIN :: nat where "EAGAIN = 11"
definition ETIMEDOUT :: nat where "ETIMEDOUT = 110"
definition EINPROGRESS :: nat where "EINPROGRESS = 115"

text \<open>
  The \<open>Timeout()\<close> of an error's own \<open>net.Error\<close> implementation, \<open>None\<close> when it has none.
  \<open>syscall.Errno\<close> and \<open>context.DeadlineExceeded\<close> implement the interface. On Linux
  \<open>EWOULDBLOCK\<close> is \<open>EAGAIN\<close>.
\<close>

fun net_error_timeout :: "go_error \<Rightarrow> bool option" where
  "net_error_timeout DeadlineExceeded = Some True"
| "net_error_timeout IoTimeout = Some True"
| "net_error_timeout (Errno n) = Some (n = EAGAIN \<or> n = ETIMEDOUT)"
| "net_error_timeout (Foreign _ t) = Some t"
| "net_error_timeout _ = None"

text \<open>\<open>errors.As(err, &ne)\<close> with \<open>ne net.Error\<close>, then \<open>ne.Timeout()\<close>.\<close>

fun errors_as_timeout :: "go_error \<Rightarrow> bool" where
  "errors_as_timeout (Wrapf _ e) = errors_as_timeout e"
| "errors_as_timeout e = (net_error_timeout e = Some True)"

text \<open>The type assertion \<open>ne, ok := err.(net.Error); ok && ne.Timeout()\<close> does not unwrap.\<close>

definition asserts_timeout :: "go_error \<Rightarrow> bool" where
  "asserts_timeout e \<longleftrightarrow> net_error_timeout e = Some True"

lemma errors_is_refl [simp]: "errors_is e e"
  by (cases e) simp_all

lemma errors_as_timeout_unwrapped: "asserts_timeout e \<Longrightarrow> errors_as_timeout e"
  by (cases e) (simp_all add: asserts_timeout_def)

end
