(* ===== verification/Wire.thy ===== *)
theory Wire
  imports Prelude
begin

text \<open>
  The frame format of \<open>pkg/wire/frame.go\<close>: the record \<open>frame\<close>, \<open>frame_encode\<close> for
  \<open>Frame.Encode\<close> and \<open>frame_decode\<close> for \<open>Decode\<close>, written with the offsets of the
  source. The two locales state what the transports and the applications rely on: a
  codec whose encoding can be recognised at the front of a longer input, and one whose
  length can be read off a header of fixed size. Both are interpreted on the model.
\<close>

section \<open>Frames\<close>

definition Magic :: u32 where "Magic = 0x4D354747"
definition Version :: byte where "Version = 1"

definition MsgReq :: byte where "MsgReq = 1"
definition MsgResp :: byte where "MsgResp = 2"
definition MsgFlood :: byte where "MsgFlood = 3"

text \<open>\<open>SendTSNS\<close> is an \<open>int64\<close>; the record holds its 64 bits, read as a number by \<open>sint\<close>.\<close>

record frame =
  MsgType :: byte
  SeqID :: u64
  SendTSNS :: u64
  ChannelID :: u16
  Payload :: bytes

text \<open>
  \<open>Encode\<close> allocates \<open>26 + len(Payload)\<close> zero bytes and writes the fields at their
  offsets, as the source does.
\<close>

definition frame_encode :: "frame \<Rightarrow> go_error + bytes" where
  "frame_encode f =
     (if 0xFFFF < length (Payload f)
      then Inl (Errorf ''payload too large: %d'' [int (length (Payload f))] [])
      else
        let out = replicate (26 + length (Payload f)) 0;
            out = put_at 0 (be_put 4 Magic) out;
            out = put_at 4 [Version] out;
            out = put_at 5 [MsgType f] out;
            out = put_at 6 (be_put 8 (SeqID f)) out;
            out = put_at 14 (be_put 8 (SendTSNS f)) out;
            out = put_at 22 (be_put 2 (ChannelID f)) out;
            out = put_at 24 (be_put 2 (of_nat (length (Payload f)) :: u16)) out;
            out = put_at 26 (Payload f) out
        in Inr out)"

definition frame_decode :: "bytes \<Rightarrow> go_error + frame" where
  "frame_decode input =
     (if length input < 26 then Inl (Errorf ''frame too short: %d'' [int (length input)] [])
      else
        let magic = be_get (subslice 0 4 input) :: u32
        in if magic \<noteq> Magic then Inl (Errorf ''bad magic: %x'' [uint magic] [])
        else
          let version = input ! 4
          in if version \<noteq> Version then Inl (Errorf ''bad version: %d'' [uint version] [])
          else
            let typ = input ! 5;
                seqID = be_get (subslice 6 14 input);
                sendTS = be_get (subslice 14 22 input);
                chID = be_get (subslice 22 24 input);
                plen = be_get (subslice 24 26 input) :: u16
            in if length input < 26 + unat plen then Inl (Errorf ''truncated payload'' [] [])
            else Inr \<lparr>MsgType = typ, SeqID = seqID, SendTSNS = sendTS, ChannelID = chID,
                       Payload = subslice 26 (26 + unat plen) input\<rparr>)"

section \<open>The layout of an encoded frame\<close>

text \<open>The 26 header bytes that announce a payload of \<open>n\<close> bytes.\<close>

definition frame_header :: "frame \<Rightarrow> nat \<Rightarrow> bytes" where
  "frame_header f n =
     be_put 4 Magic @ [Version, MsgType f] @ be_put 8 (SeqID f) @ be_put 8 (SendTSNS f)
     @ be_put 2 (ChannelID f) @ be_put 2 (of_nat n :: u16)"

definition encodable :: "frame \<Rightarrow> bool" where
  "encodable f \<longleftrightarrow> length (Payload f) \<le> 0xFFFF"

lemma be_put_Magic: "be_put 4 Magic = [0x4D, 0x35, 0x47, 0x47]"
proof -
  have "be_bytes (Suc (Suc (Suc (Suc 0)))) 1295337287 = [0x4D, 0x35, 0x47, 0x47]"
    by simp
  moreover have "Suc (Suc (Suc (Suc 0))) = 4" by simp
  ultimately have "be_bytes 4 1295337287 = [0x4D, 0x35, 0x47, 0x47]" by (simp only:)
  then show ?thesis
    by (simp add: be_put_def Magic_def)
qed

lemma length_frame_header [simp]: "length (frame_header f n) = 26"
  by (simp add: frame_header_def)

lemma frame_encode_layout:
  assumes "encodable f"
  shows "frame_encode f = Inr (frame_header f (length (Payload f)) @ Payload f)"
proof -
  let ?n = "length (Payload f)"
  let ?z = "\<lambda>k. replicate k (0 :: byte)"
  let ?h0 = "be_put 4 Magic"
  let ?h1 = "?h0 @ [Version]"
  let ?h2 = "?h1 @ [MsgType f]"
  let ?h3 = "?h2 @ be_put 8 (SeqID f)"
  let ?h4 = "?h3 @ be_put 8 (SendTSNS f)"
  let ?h5 = "?h4 @ be_put 2 (ChannelID f)"
  let ?h6 = "?h5 @ be_put 2 (of_nat ?n :: u16)"
  have "put_at 0 (be_put 4 Magic) (?z (26 + ?n)) = ?h0 @ ?z (22 + ?n)"
    using put_at_fill [of "[]" 0 ?h0 "26 + ?n" 0] by simp
  moreover have "put_at 4 [Version] (?h0 @ ?z (22 + ?n)) = ?h1 @ ?z (21 + ?n)"
    by (subst put_at_fill) simp_all
  moreover have "put_at 5 [MsgType f] (?h1 @ ?z (21 + ?n)) = ?h2 @ ?z (20 + ?n)"
    by (subst put_at_fill) simp_all
  moreover have "put_at 6 (be_put 8 (SeqID f)) (?h2 @ ?z (20 + ?n)) = ?h3 @ ?z (12 + ?n)"
    by (subst put_at_fill) simp_all
  moreover have "put_at 14 (be_put 8 (SendTSNS f)) (?h3 @ ?z (12 + ?n)) = ?h4 @ ?z (4 + ?n)"
    by (subst put_at_fill) simp_all
  moreover have "put_at 22 (be_put 2 (ChannelID f)) (?h4 @ ?z (4 + ?n)) = ?h5 @ ?z (2 + ?n)"
    by (subst put_at_fill) simp_all
  moreover have "put_at 24 (be_put 2 (of_nat ?n :: u16)) (?h5 @ ?z (2 + ?n)) = ?h6 @ ?z ?n"
    by (subst put_at_fill) simp_all
  moreover have "put_at 26 (Payload f) (?h6 @ ?z ?n) = ?h6 @ Payload f"
    by (subst put_at_fill) simp_all
  ultimately show ?thesis
    using assms by (simp only: frame_encode_def Let_def encodable_def not_less [symmetric] if_False)
      (simp add: frame_header_def)
qed

lemma frame_encode_too_large:
  "\<not> encodable f \<Longrightarrow>
    frame_encode f = Inl (Errorf ''payload too large: %d'' [int (length (Payload f))] [])"
  by (simp add: frame_encode_def encodable_def)

lemma frame_encode_Inr_iff:
  "frame_encode f = Inr b \<longleftrightarrow> encodable f \<and> b = frame_header f (length (Payload f)) @ Payload f"
  by (cases "encodable f") (auto simp: frame_encode_layout frame_encode_too_large)

section \<open>What Decode accepts\<close>

lemma slice_shift [slice_simps]:
  "length xs = n \<Longrightarrow> n \<le> a \<Longrightarrow> subslice a b (xs @ ys) = subslice (a - n) (b - n) ys"
  by (auto simp: slice_append_right)

lemma slice_take [slice_simps]: "length xs = b \<Longrightarrow> subslice 0 b (xs @ ys) = xs"
  by (simp add: subslice_def)

lemma frame_header_fields:
  "subslice 0 4 (frame_header f n @ r) = be_put 4 Magic"
  "(frame_header f n @ r) ! 4 = Version"
  "(frame_header f n @ r) ! 5 = MsgType f"
  "subslice 6 14 (frame_header f n @ r) = be_put 8 (SeqID f)"
  "subslice 14 22 (frame_header f n @ r) = be_put 8 (SendTSNS f)"
  "subslice 22 24 (frame_header f n @ r) = be_put 2 (ChannelID f)"
  "subslice 24 26 (frame_header f n @ r) = be_put 2 (of_nat n :: u16)"
  "subslice 26 (26 + k) (frame_header f n @ r) = take k r"
  by (simp_all add: frame_header_def subslice_def nth_append)

lemma unat_of_nat_u16: "n \<le> 0xFFFF \<Longrightarrow> unat (of_nat n :: u16) = n"
  by (simp add: unat_of_nat)

lemma frame_decode_header:
  assumes "n \<le> 0xFFFF"
  shows "frame_decode (frame_header f n @ r) =
    (if length r < n then Inl (Errorf ''truncated payload'' [] [])
     else Inr (f\<lparr>Payload := take n r\<rparr>))"
  using assms
  by (simp add: frame_decode_def Let_def frame_header_fields be_get_be_put unat_of_nat_u16)

lemma frame_decode_encode:
  assumes "frame_encode f = Inr b"
  shows "frame_decode (b @ r) = Inr f"
  using assms by (auto simp: frame_encode_Inr_iff frame_decode_header encodable_def)

text \<open>Cutting the first 26 bytes of an input at the offsets of the header.\<close>

lemma split_header:
  assumes "26 \<le> length (xs :: bytes)"
  shows "xs = subslice 0 4 xs @ [xs ! 4, xs ! 5] @ subslice 6 14 xs @ subslice 14 22 xs @ subslice 22 24 xs
    @ subslice 24 26 xs @ drop 26 xs"
proof -
  have cut: "drop a xs = subslice a b xs @ drop b xs" if "a \<le> b" for a b
  proof -
    have "drop b xs = drop (b - a) (drop a xs)"
      using that by simp
    then show ?thesis
      by (simp only: subslice_def append_take_drop_id)
  qed
  have one: "drop i xs = xs ! i # drop (Suc i) xs" if "i < 26" for i
    using that assms by (simp add: Cons_nth_drop_Suc)
  have "xs = subslice 0 4 xs @ drop 4 xs"
    using cut [of 0 4] by simp
  also have "drop 4 xs = [xs ! 4, xs ! 5] @ drop 6 xs"
    using one [of 4] one [of 5] by simp
  also have "drop 6 xs = subslice 6 14 xs @ subslice 14 22 xs @ subslice 22 24 xs @ subslice 24 26 xs @ drop 26 xs"
    using cut [of 6 14] cut [of 14 22] cut [of 22 24] cut [of 24 26] by simp
  finally show ?thesis .
qed

lemma frame_decode_Inr:
  assumes "frame_decode b = Inr f"
  shows "encodable f \<and> b = frame_header f (length (Payload f)) @ Payload f @ drop (26 + length (Payload f)) b"
proof -
  let ?plen = "be_get (subslice 24 26 b) :: u16"
  from assms have len: "26 \<le> length b" and magic: "be_get (subslice 0 4 b) = Magic"
    and version: "b ! 4 = Version" and payload: "26 + unat ?plen \<le> length b"
    and f: "f = \<lparr>MsgType = b ! 5, SeqID = be_get (subslice 6 14 b), SendTSNS = be_get (subslice 14 22 b),
      ChannelID = be_get (subslice 22 24 b), Payload = subslice 26 (26 + unat ?plen) b\<rparr>"
    by (auto simp: frame_decode_def Let_def split: if_splits)
  from payload have plen: "length (Payload f) = unat ?plen"
    by (simp add: f length_slice)
  have "unat ?plen < 2 ^ LENGTH(16)"
    by (rule unsigned_less)
  then have "encodable f"
    by (simp add: encodable_def plen)
  have words: "be_put 4 Magic = subslice 0 4 b" "be_put 8 (SeqID f) = subslice 6 14 b"
    "be_put 8 (SendTSNS f) = subslice 14 22 b" "be_put 2 (ChannelID f) = subslice 22 24 b"
    "be_put 2 ?plen = subslice 24 26 b"
    using len by (simp_all add: f magic [symmetric] be_put_be_get length_slice)
  moreover have "of_nat (length (Payload f)) = ?plen"
    by (simp add: plen)
  ultimately have plen_word: "be_put 2 (of_nat (length (Payload f)) :: u16) = subslice 24 26 b"
    by simp
  have body: "Payload f = take (unat ?plen) (drop 26 b)"
    by (simp add: f subslice_def)
  have tail: "drop (26 + unat ?plen) b = drop (unat ?plen) (drop 26 b)"
    by (simp add: add.commute)
  have "drop 26 b = Payload f @ drop (26 + length (Payload f)) b"
    unfolding plen tail by (simp only: body append_take_drop_id)
  then have "b = frame_header f (length (Payload f)) @ Payload f @ drop (26 + length (Payload f)) b"
    using split_header [OF len] by (simp add: frame_header_def words plen_word version) (simp add: f)
  with \<open>encodable f\<close> show ?thesis by blast
qed

text \<open>A frame that is cut short.\<close>

lemma frame_decode_truncated:
  assumes "frame_encode f = Inr b" and "n < length b"
  shows "frame_decode (take n b) =
    Inl (if n < 26 then Errorf ''frame too short: %d'' [int n] [] else Errorf ''truncated payload'' [] [])"
proof (cases "n < 26")
  case True
  with assms(2) show ?thesis by (simp add: frame_decode_def)
next
  case False
  from assms(1) have e: "encodable f" and b: "b = frame_header f (length (Payload f)) @ Payload f"
    by (simp_all add: frame_encode_Inr_iff)
  from False b have "take n b = frame_header f (length (Payload f)) @ take (n - 26) (Payload f)"
    by simp
  moreover have "n - 26 < length (Payload f)"
    using assms(2) False b by simp
  ultimately show ?thesis
    using False e by (simp add: frame_decode_header encodable_def)
qed

lemma frame_encode_of_decode:
  assumes "frame_decode b = Inr f"
  shows "frame_encode f = Inr (take (26 + length (Payload f)) b)"
proof -
  from frame_decode_Inr [OF assms] have enc: "encodable f"
    and b: "b = frame_header f (length (Payload f)) @ Payload f @ drop (26 + length (Payload f)) b"
    by auto
  have "take (26 + length (Payload f)) b = frame_header f (length (Payload f)) @ Payload f"
    by (subst b) simp
  with enc show ?thesis
    by (simp add: frame_encode_layout)
qed

section \<open>The codec interface\<close>

text \<open>
  What the transports and the applications assume of a message codec: an encoded message
  is recognised at the front of any input (bytes after it are ignored), and whatever is
  decoded is an encoded message followed by ignored bytes.
\<close>

locale codec =
  fixes enc :: "'f \<Rightarrow> 'e + 'b list" and dec :: "'b list \<Rightarrow> 'e + 'f"
  assumes dec_enc: "enc f = Inr b \<Longrightarrow> dec (b @ r) = Inr f"
    and enc_dec: "dec b = Inr f \<Longrightarrow> \<exists>b' r. enc f = Inr b' \<and> b = b' @ r"
begin

lemma dec_enc_exact: "enc f = Inr b \<Longrightarrow> dec b = Inr f"
  using dec_enc [of f b "[]"] by simp

lemma dec_extend: "dec b = Inr f \<Longrightarrow> dec (b @ r) = Inr f"
  using enc_dec dec_enc by fastforce

lemma enc_inj: "enc f = Inr b \<Longrightarrow> enc g = Inr b \<Longrightarrow> f = g"
  using dec_enc_exact by (metis sum.inject(2))

lemma enc_prefix_free:
  assumes "enc f = Inr b" and "enc g = Inr (b @ c)"
  shows "g = f \<and> c = []"
proof -
  from assms have "g = f"
    using dec_enc [OF assms(1), of c] dec_enc_exact [OF assms(2)] by simp
  with assms show ?thesis by simp
qed

end

text \<open>
  A codec for a byte stream: \<open>hlen\<close> bytes of header suffice to compute how many bytes
  follow. A reader of the stream can then cut it into messages.
\<close>

locale framed_codec = codec enc dec
  for enc :: "'f \<Rightarrow> 'e + 'b list" and dec :: "'b list \<Rightarrow> 'e + 'f" +
  fixes hlen :: nat and blen :: "'b list \<Rightarrow> nat"
  assumes enc_length: "enc f = Inr b \<Longrightarrow> length b = hlen + blen (take hlen b)"
begin

lemma hlen_le: "enc f = Inr b \<Longrightarrow> hlen \<le> length b"
  using enc_length [of f b] by simp

lemma cut_first:
  assumes "enc f = Inr b"
  shows "hlen + blen (take hlen (b @ r)) = length b"
  using assms enc_length [OF assms] hlen_le [OF assms] by simp

lemma cut_first_message:
  assumes "enc f = Inr b"
  shows "take (hlen + blen (take hlen (b @ r))) (b @ r) = b"
    and "drop (hlen + blen (take hlen (b @ r))) (b @ r) = r"
  by (simp_all only: cut_first [OF assms]) simp_all

end

interpretation wire: codec frame_encode frame_decode
proof unfold_locales
  fix f b r
  assume "frame_encode f = Inr b"
  then show "frame_decode (b @ r) = Inr f"
    by (rule frame_decode_encode)
next
  fix b f
  assume "frame_decode b = Inr f"
  then show "\<exists>b' r. frame_encode f = Inr b' \<and> b = b' @ r"
    using frame_decode_Inr [of b f] by (auto simp: frame_encode_layout)
qed

text \<open>
  The length that the kernel transport reads off the 26 header bytes
  (\<open>binary.BigEndian.Uint16(header[24:26])\<close>).
\<close>

definition payload_len :: "bytes \<Rightarrow> nat" where
  "payload_len header = unat (be_get (subslice 24 26 header) :: u16)"

lemma payload_len_header [simp]:
  "n \<le> 0xFFFF \<Longrightarrow> payload_len (frame_header f n) = n"
  using frame_header_fields(7) [of f n "[]"]
  by (simp add: payload_len_def be_get_be_put unat_of_nat_u16)

lemma payload_len_bound: "payload_len h \<le> 0xFFFF"
proof -
  have "unat (be_get (subslice 24 26 h) :: u16) < 2 ^ LENGTH(16)"
    by (rule unsigned_less)
  then show ?thesis by (simp add: payload_len_def)
qed

interpretation wire_stream: framed_codec frame_encode frame_decode 26 payload_len
  by unfold_locales (auto simp: frame_encode_Inr_iff encodable_def)

section \<open>Properties\<close>

text \<open>C4: Encoding succeeds exactly for payloads of at most 65535 bytes; the result is 26
  bytes longer than the payload, and decoding it, even with further bytes behind it, returns
  every field of the frame.\<close>

theorem frame_roundtrip:
  "(\<exists>b. frame_encode f = Inr b \<and> length b = 26 + length (Payload f) \<and>
      (\<forall>r. frame_decode (b @ r) = Inr f))
    = (length (Payload f) \<le> 0xFFFF)"
  by (auto simp: frame_encode_Inr_iff encodable_def frame_decode_header)

text \<open>C27: \<open>Decode\<close> returns a frame exactly when the input begins with the encoding of that frame;
  whatever follows it is ignored.\<close>

theorem frame_decode_iff:
  "frame_decode b = Inr f \<longleftrightarrow> (\<exists>e r. frame_encode f = Inr e \<and> b = e @ r)"
  using wire.enc_dec wire.dec_enc by blast

end
