(* ===== verification/Go_Strings.thy ===== *)
theory Go_Strings
  imports Prelude
begin

text \<open>
  The string functions of Go's standard library that the program calls:
  \<open>strings.TrimSpace\<close>, \<open>strings.ReplaceAll\<close> of one byte by nothing,
  \<open>encoding/hex.DecodeString\<close> and the decimal formatting of \<open>strconv\<close> and
  \<open>fmt\<close>, with the facts about them that the components use.
\<close>

section \<open>TrimSpace\<close>

text \<open>
  The UTF-8 encodings of the code points for which \<open>unicode.IsSpace\<close> holds. A string
  starts (ends) with a white-space rune exactly when one of these is a prefix (suffix).
\<close>

definition space_encodings :: "string list" where
  "space_encodings =
    [[CHR 0x09], [CHR 0x0A], [CHR 0x0B], [CHR 0x0C], [CHR 0x0D], [CHR 0x20],
     [CHR 0xC2, CHR 0x85], [CHR 0xC2, CHR 0xA0], [CHR 0xE1, CHR 0x9A, CHR 0x80]]
    @ map (\<lambda>c. [CHR 0xE2, CHR 0x80, c])
       [CHR 0x80, CHR 0x81, CHR 0x82, CHR 0x83, CHR 0x84, CHR 0x85, CHR 0x86, CHR 0x87,
        CHR 0x88, CHR 0x89, CHR 0x8A, CHR 0xA8, CHR 0xA9, CHR 0xAF]
    @ [[CHR 0xE2, CHR 0x81, CHR 0x9F], [CHR 0xE3, CHR 0x80, CHR 0x80]]"

definition starts_with :: "'a list \<Rightarrow> 'a list \<Rightarrow> bool" where
  "starts_with xs p \<longleftrightarrow> take (length p) xs = p"

function strip_all :: "string list \<Rightarrow> string \<Rightarrow> string" where
  "strip_all ps s =
     (case find (\<lambda>p. p \<noteq> [] \<and> starts_with s p) ps of
        None \<Rightarrow> s
      | Some p \<Rightarrow> strip_all ps (drop (length p) s))"
  by pat_completeness auto
termination
  by (relation "measure (\<lambda>(ps, s). length s)")
    (auto simp: find_Some_iff starts_with_def dest: arg_cong [where f = length] intro: diff_less)

declare strip_all.simps [simp del]

definition trim_space :: "string \<Rightarrow> string" where
  "trim_space s = rev (strip_all (map rev space_encodings) (rev (strip_all space_encodings s)))"

lemma starts_with_append:
  assumes "starts_with xs p"
  shows "starts_with (xs @ ys) p"
proof -
  from assms have "length (take (length p) xs) = length p"
    by (simp add: starts_with_def)
  then have "length p \<le> length xs"
    by simp
  with assms show ?thesis
    by (simp add: starts_with_def)
qed

lemma starts_with_hd: "starts_with s p \<Longrightarrow> p \<noteq> [] \<Longrightarrow> hd s = hd p"
  by (cases p; cases s) (simp_all add: starts_with_def)

lemma strip_all_suffix: "\<exists>p. s = p @ strip_all ps s"
proof (induction ps s rule: strip_all.induct)
  case (1 ps s)
  show ?case
  proof (cases "find (\<lambda>p. p \<noteq> [] \<and> starts_with s p) ps")
    case None
    then show ?thesis by (subst strip_all.simps) simp
  next
    case (Some p)
    from "1.IH" [OF Some] obtain q where "drop (length p) s = q @ strip_all ps (drop (length p) s)"
      by blast
    then have "s = (take (length p) s @ q) @ strip_all ps (drop (length p) s)"
      by (metis append.assoc append_take_drop_id)
    moreover have "strip_all ps s = strip_all ps (drop (length p) s)"
      by (subst strip_all.simps) (simp add: Some)
    ultimately show ?thesis by metis
  qed
qed

lemma strip_all_done: "p \<in> set ps \<Longrightarrow> p \<noteq> [] \<Longrightarrow> \<not> starts_with (strip_all ps s) p"
proof (induction ps s rule: strip_all.induct)
  case (1 ps s)
  show ?case
  proof (cases "find (\<lambda>p. p \<noteq> [] \<and> starts_with s p) ps")
    case None
    then have "\<not> starts_with s p"
      using "1.prems" by (auto simp: find_None_iff)
    with None show ?thesis by (subst strip_all.simps) simp
  next
    case (Some q)
    with "1.IH" [OF Some "1.prems"] show ?thesis by (subst strip_all.simps) simp
  qed
qed

lemma strip_all_id: "\<forall>p \<in> set ps. p = [] \<or> \<not> starts_with s p \<Longrightarrow> strip_all ps s = s"
  by (subst strip_all.simps) (auto simp: find_None_iff split: option.splits dest!: find_Some_iff [THEN iffD1])

lemma trim_space_infix: "\<exists>p q. s = p @ trim_space s @ q"
proof -
  let ?t = "strip_all space_encodings s"
  obtain p where p: "s = p @ ?t"
    using strip_all_suffix by blast
  obtain q where "rev ?t = q @ strip_all (map rev space_encodings) (rev ?t)"
    using strip_all_suffix by blast
  then have "?t = trim_space s @ rev q"
    unfolding trim_space_def by (metis rev_append rev_rev_ident)
  with p show ?thesis by metis
qed

text \<open>A trimmed string starts and ends with no white space, so trimming is idempotent.\<close>

lemma trim_space_idem: "trim_space (trim_space s) = trim_space s"
proof -
  let ?t = "strip_all space_encodings s"
  obtain q where "rev ?t = q @ strip_all (map rev space_encodings) (rev ?t)"
    using strip_all_suffix by blast
  then have t: "?t = trim_space s @ rev q"
    unfolding trim_space_def by (metis rev_append rev_rev_ident)
  have "strip_all space_encodings (trim_space s) = trim_space s"
    by (rule strip_all_id) (metis t starts_with_append strip_all_done)
  moreover have "strip_all (map rev space_encodings) (rev (trim_space s)) = rev (trim_space s)"
    by (rule strip_all_id) (metis trim_space_def rev_rev_ident strip_all_done)
  ultimately show ?thesis
    by (simp add: trim_space_def)
qed

text \<open>A string with an ASCII character that is no white space at both ends is not touched.\<close>

definition plain_char :: "char \<Rightarrow> bool" where
  "plain_char c \<longleftrightarrow> c \<notin> set (concat space_encodings)"

lemma trim_space_plain:
  assumes "s \<noteq> []" and "plain_char (hd s)" and "plain_char (last s)"
  shows "trim_space s = s"
proof -
  have l: "strip_all space_encodings s = s"
  proof (rule strip_all_id, intro ballI)
    fix p assume p: "p \<in> set space_encodings"
    then have "p \<noteq> [] \<Longrightarrow> plain_char (hd p) \<Longrightarrow> False"
      unfolding plain_char_def by (metis list.set_sel(1) UN_I set_concat)
    then show "p = [] \<or> \<not> starts_with s p"
      using assms(2) starts_with_hd [of s p] by auto
  qed
  have "strip_all (map rev space_encodings) (rev s) = rev s"
  proof (rule strip_all_id, intro ballI)
    fix p assume p: "p \<in> set (map rev space_encodings)"
    then have "rev p \<in> set space_encodings"
      by auto
    then have "p \<noteq> [] \<Longrightarrow> plain_char (hd p) \<Longrightarrow> False"
      unfolding plain_char_def by (metis list.set_sel(1) UN_I set_concat set_rev)
    then show "p = [] \<or> \<not> starts_with (rev s) p"
      using assms(1,3) starts_with_hd [of "rev s" p] by (auto simp: hd_rev)
  qed
  with l show ?thesis by (simp add: trim_space_def)
qed

lemma trim_space_Nil [simp]: "trim_space [] = []"
  by (simp add: trim_space_def strip_all_id space_encodings_def starts_with_def)

section \<open>ReplaceAll\<close>

text \<open>\<open>strings.ReplaceAll(s, c, "")\<close> for a one-byte string \<open>c\<close>.\<close>

definition remove_all :: "char \<Rightarrow> string \<Rightarrow> string" where
  "remove_all c s = filter (\<lambda>x. x \<noteq> c) s"

section \<open>Hexadecimal text\<close>

text \<open>\<open>reverseHexTable\<close> of \<open>encoding/hex\<close>: the value of a digit, \<open>None\<close> for other bytes.\<close>

definition unhex :: "char \<Rightarrow> nat option" where
  "unhex c = (let n = of_char c in
     if 48 \<le> n \<and> n \<le> 57 then Some (n - 48)
     else if 97 \<le> n \<and> n \<le> 102 then Some (n - 87)
     else if 65 \<le> n \<and> n \<le> 70 then Some (n - 55)
     else None)"

definition hex_invalid :: "char \<Rightarrow> go_error" where
  "hex_invalid c = Errorf ''encoding/hex: invalid byte'' [int (of_char c)] []"

definition hex_length_error :: go_error where
  "hex_length_error = Errorf ''encoding/hex: odd length hex string'' [] []"

definition hex_byte :: "nat \<Rightarrow> nat \<Rightarrow> byte" where
  "hex_byte a b = of_nat (a * 16 + b)"

fun hex_decode :: "string \<Rightarrow> go_error + bytes" where
  "hex_decode [] = Inr []"
| "hex_decode [c] = (if unhex c = None then Inl (hex_invalid c) else Inl hex_length_error)"
| "hex_decode (p # q # s) =
     (case unhex p of None \<Rightarrow> Inl (hex_invalid p)
      | Some a \<Rightarrow>
          (case unhex q of None \<Rightarrow> Inl (hex_invalid q)
           | Some b \<Rightarrow>
               (case hex_decode s of Inl e \<Rightarrow> Inl e
                | Inr bs \<Rightarrow> Inr (hex_byte a b # bs))))"

text \<open>The specification: two digits for each byte, most significant first, in either case.\<close>

fun spells :: "string \<Rightarrow> bytes \<Rightarrow> bool" where
  "spells [] [] = True"
| "spells (p # q # s) (b # bs) \<longleftrightarrow>
     unhex p = Some (unat b div 16) \<and> unhex q = Some (unat b mod 16) \<and> spells s bs"
| "spells _ _ = False"

lemma unhex_less: "unhex c = Some a \<Longrightarrow> a < 16"
  by (auto simp: unhex_def Let_def split: if_splits)

lemma unat_of_nat_byte: "n < 256 \<Longrightarrow> unat (of_nat n :: byte) = n"
  by (simp add: unat_of_nat)

lemma hex_byte_iff:
  assumes "a < 16" and "b < 16"
  shows "hex_byte a b = x \<longleftrightarrow> a = unat x div 16 \<and> b = unat x mod 16"
proof
  assume "hex_byte a b = x"
  then have "unat x = unat (of_nat (a * 16 + b) :: byte)"
    by (simp only: hex_byte_def [symmetric])
  also have "\<dots> = a * 16 + b"
    using assms by (intro unat_of_nat_byte) simp
  finally show "a = unat x div 16 \<and> b = unat x mod 16"
    using assms by simp
next
  assume "a = unat x div 16 \<and> b = unat x mod 16"
  then have "a * 16 + b = unat x"
    by simp
  then show "hex_byte a b = x"
    by (simp add: hex_byte_def del: of_nat_add of_nat_mult)
qed

lemma hex_decode_iff_spells: "hex_decode s = Inr bs \<longleftrightarrow> spells s bs"
proof (induction s arbitrary: bs rule: hex_decode.induct)
  case (3 p q s)
  show ?case
  proof (cases "unhex p = None \<or> unhex q = None")
    case True
    then show ?thesis by (cases bs) (auto split: option.splits)
  next
    case False
    then obtain a b where ab: "unhex p = Some a" "unhex q = Some b" by auto
    then have lt: "a < 16" "b < 16" by (auto dest: unhex_less)
    then show ?thesis
      using ab "3.IH" [OF ab, symmetric]
      by (cases bs; cases "hex_decode s") (auto simp: hex_byte_iff)
  qed
next
  case 1
  then show ?case by (cases bs) simp_all
qed auto

lemma spells_digits: "spells s bs \<Longrightarrow> c \<in> set s \<Longrightarrow> unhex c \<noteq> None"
  by (induction s bs rule: spells.induct) auto

lemma spells_length: "spells s bs \<Longrightarrow> length s = 2 * length bs"
  by (induction s bs rule: spells.induct) auto

section \<open>Decimal text\<close>

text \<open>\<open>strconv.FormatUint(n, 10)\<close>, \<open>strconv.FormatInt(i, 10)\<close> and \<open>strconv.Itoa\<close>.\<close>

definition digit_char :: "nat \<Rightarrow> char" where
  "digit_char d = char_of (48 + d)"

fun format_nat :: "nat \<Rightarrow> string" where
  "format_nat n = (if n < 10 then [digit_char n] else format_nat (n div 10) @ [digit_char (n mod 10)])"

declare format_nat.simps [simp del]

definition format_int :: "int \<Rightarrow> string" where
  "format_int i = (if i < 0 then CHR ''-'' # format_nat (nat (- i)) else format_nat (nat i))"

definition parse_nat :: "string \<Rightarrow> nat" where
  "parse_nat s = foldl (\<lambda>a c. a * 10 + (of_char c - 48)) 0 s"

definition parse_int :: "string \<Rightarrow> int" where
  "parse_int s = (case s of c # t \<Rightarrow> if c = CHR ''-'' then - int (parse_nat t) else int (parse_nat s)
    | [] \<Rightarrow> 0)"

lemma of_char_digit [simp]: "d < 10 \<Longrightarrow> of_char (digit_char d) = 48 + d"
  by (simp add: digit_char_def)

lemma parse_format_nat: "parse_nat (format_nat n) = n"
proof (induction n rule: format_nat.induct)
  case (1 n)
  then show ?case
    by (subst format_nat.simps) (auto simp: parse_nat_def)
qed

lemma format_nat_digits: "c \<in> set (format_nat n) \<Longrightarrow> \<exists>d < 10. c = digit_char d"
proof (induction n rule: format_nat.induct)
  case (1 n)
  show ?case
  proof (cases "n < 10")
    case True
    with "1.prems" show ?thesis by (subst (asm) format_nat.simps) auto
  next
    case False
    then have "c \<in> set (format_nat (n div 10)) \<or> c = digit_char (n mod 10)"
      using "1.prems" by (subst (asm) format_nat.simps) auto
    moreover have "n mod 10 < 10" by simp
    ultimately show ?thesis using "1.IH" [OF False] by blast
  qed
qed

lemma format_nat_not_Nil [simp]: "format_nat n \<noteq> []"
  by (subst format_nat.simps) simp

lemma digit_char_not_minus: "d < 10 \<Longrightarrow> digit_char d \<noteq> CHR ''-''"
proof
  assume d: "d < 10" and eq: "digit_char d = CHR ''-''"
  have "(of_char (digit_char d) :: nat) = of_char (CHR ''-'')"
    by (simp only: eq)
  with d show False by simp
qed

lemma parse_format_int: "parse_int (format_int i) = i"
proof (cases "i < 0")
  case True
  then show ?thesis by (simp add: parse_int_def format_int_def parse_format_nat)
next
  case False
  obtain c t where ct: "format_nat (nat i) = c # t"
    by (cases "format_nat (nat i)") auto
  then have "c \<noteq> CHR ''-''"
    using format_nat_digits [of c "nat i"] digit_char_not_minus by auto
  with False ct show ?thesis
    by (simp add: parse_int_def format_int_def) (simp add: ct [symmetric] parse_format_nat)
qed

lemma format_int_inj: "format_int i = format_int j \<Longrightarrow> i = j"
  by (metis parse_format_int)

end
