(* ===== verification/Nas.thy ===== *)
theory Nas
  imports Go_Strings
begin

text \<open>
  \<open>pkg/nas/template.go\<close>: loading the payload of a NAS message from a file of raw bytes or
  of hexadecimal text. The file system is the argument \<open>read_file\<close>, the outcome of
  \<open>os.ReadFile\<close> on each path.
\<close>

definition bytes_to_string :: "bytes \<Rightarrow> string" where
  "bytes_to_string bs = map (\<lambda>b. char_of (unat b)) bs"

definition LoadTemplate :: "(string \<Rightarrow> go_error + bytes) \<Rightarrow> string \<Rightarrow> bool \<Rightarrow> go_error + bytes" where
  "LoadTemplate read_file path isHex =
     (case read_file path of
        Inl err \<Rightarrow> Inl err
      | Inr raw \<Rightarrow>
          if \<not> isHex then Inr raw
          else
            let s = trim_space (bytes_to_string raw);
                s = remove_all (CHR '' '') s;
                s = remove_all (CHR 0x0A) s
            in case hex_decode s of
                 Inl err \<Rightarrow> Inl (Wrapf ''invalid hex template: %w'' err)
               | Inr out \<Rightarrow> Inr out)"

text \<open>The characters of the file that reach the hexadecimal decoder.\<close>

definition hex_text :: "bytes \<Rightarrow> string" where
  "hex_text raw = filter (\<lambda>c. c \<noteq> CHR '' '' \<and> c \<noteq> CHR 0x0A) (trim_space (bytes_to_string raw))"

lemma LoadTemplate_hex:
  "read_file path = Inr raw \<Longrightarrow>
    LoadTemplate read_file path True =
      (case hex_decode (hex_text raw) of
         Inl err \<Rightarrow> Inl (Wrapf ''invalid hex template: %w'' err) | Inr out \<Rightarrow> Inr out)"
  by (simp add: LoadTemplate_def Let_def remove_all_def hex_text_def conj_commute)

section \<open>Properties\<close>

text \<open>C35: In hexadecimal mode a template is loaded exactly when the text of the file, after
  trimming the white space around it and dropping the spaces and newlines inside, spells the
  returned bytes with two digits each, in upper or lower case.\<close>

theorem LoadTemplate_hex_iff:
  "LoadTemplate read_file path True = Inr bs \<longleftrightarrow>
    (\<exists>raw. read_file path = Inr raw \<and> spells (hex_text raw) bs)"
  by (cases "read_file path")
    (auto simp: LoadTemplate_def Let_def remove_all_def hex_text_def conj_commute
      hex_decode_iff_spells [symmetric] split: sum.splits)

text \<open>Spaces and newlines are the only separators: a template with any other byte that is no
  digit left between its first and last character, such as the carriage return of a file with
  Windows line ends or a tab, is rejected with an error.\<close>

theorem LoadTemplate_rejects:
  assumes "read_file path = Inr raw" and "c \<in> set (trim_space (bytes_to_string raw))"
    and "unhex c = None" and "c \<noteq> CHR '' ''" and "c \<noteq> CHR 0x0A"
  shows "\<exists>e. LoadTemplate read_file path True = Inl (Wrapf ''invalid hex template: %w'' e)"
proof -
  have "c \<in> set (hex_text raw)"
    using assms by (simp add: hex_text_def)
  then have "hex_decode (hex_text raw) \<noteq> Inr bs" for bs
    using assms(3) spells_digits [of "hex_text raw" bs c] by (auto simp: hex_decode_iff_spells)
  then show ?thesis
    using assms(1) by (cases "hex_decode (hex_text raw)") (auto simp: LoadTemplate_hex)
qed

end
