(* ===== verification/Float64.thy ===== *)
theory Float64
  imports Complex_Main "HOL-Library.Log_Nat"
begin

text \<open>
  The part of IEEE-754 double arithmetic that \<open>pkg/metrics\<close> uses: non-negative normal
  numbers as rationals, and \<open>f64 x\<close>, the double nearest to \<open>x\<close> (53 significant bits, ties
  to even). A Go operation on doubles is the exact operation followed by \<open>f64\<close>. The
  values of the program stay between \<open>10\<^sup>-\<^sup>9\<close> and \<open>2\<^sup>9\<^sup>4\<close> or are 0, so neither subnormal
  numbers nor overflow to infinity arise and they are left out.
\<close>

section \<open>Rounding\<close>

definition round_even :: "rat \<Rightarrow> int" where
  "round_even y =
     (let f = \<lfloor>y\<rfloor>; d = y - of_int f
      in if d < 1 / 2 then f else if 1 / 2 < d then f + 1 else if even f then f else f + 1)"

lemma round_even_of_int [simp]: "round_even (of_int k) = k"
  by (simp add: round_even_def)

lemma round_even_near:
  assumes "\<bar>y - of_int k\<bar> < 1 / 2"
  shows "round_even y = k"
proof (cases "of_int k \<le> y")
  case True
  then have "\<lfloor>y\<rfloor> = k"
    using assms by (intro floor_unique) linarith+
  with True assms show ?thesis
    by (simp add: round_even_def Let_def)
next
  case False
  then have "of_int k - 1 \<le> y" and "y < of_int k"
    using assms unfolding abs_less_iff by linarith+
  then have fl: "\<lfloor>y\<rfloor> = k - 1"
    by (intro floor_unique) simp_all
  with False assms show ?thesis
    by (simp add: round_even_def Let_def)
qed

lemma round_even_bounds: "\<lfloor>y\<rfloor> \<le> round_even y" "of_int (round_even y) \<le> y + 1 / 2"
proof -
  show "\<lfloor>y\<rfloor> \<le> round_even y"
    by (simp add: round_even_def Let_def)
  show "of_int (round_even y) \<le> y + 1 / 2"
    unfolding round_even_def Let_def by (simp split: if_split, linarith)
qed

text \<open>
  The exponent of the last place: for \<open>x = p / q > 0\<close> the \<open>e\<close> with
  \<open>2\<^sup>5\<^sup>2 \<le> x / 2\<^sup>e < 2\<^sup>5\<^sup>3\<close>, computed from the bit lengths of \<open>p\<close> and \<open>q\<close>.
\<close>

definition ulp_exp :: "rat \<Rightarrow> int" where
  "ulp_exp x =
     (let (p, q) = quotient_of x; e = bitlen p - bitlen q - 53
      in if x / 2 powi e < 2 ^ 53 then e else e + 1)"

definition f64 :: "rat \<Rightarrow> rat" where
  "f64 x = (if x \<le> 0 then 0 else of_int (round_even (x / 2 powi ulp_exp x)) * 2 powi ulp_exp x)"

lemma div_powi_pos: "0 < (x :: rat) / 2 powi e \<longleftrightarrow> 0 < x"
proof -
  have "0 < (2 :: rat) powi e" by simp
  then show ?thesis by (simp only: pos_less_divide_eq mult_zero_left)
qed

lemma bitlen_range:
  assumes "0 < p"
  shows "2 powi (bitlen p - 1) \<le> (of_int p :: rat)" and "of_int p < (2 powi bitlen p :: rat)"
proof -
  have pos: "0 < bitlen p"
    using assms bitlen_nonneg [of p] bitlen_eq_zero_iff [of p] by linarith
  define n where "n = nat (bitlen p - 1)"
  have len: "bitlen p = int n + 1"
    using pos by (simp add: n_def)
  have b: "2 ^ n \<le> p \<and> p < 2 ^ (n + 1)"
    using bitlen_bounds [OF assms] len by (simp add: nat_add_distrib)
  then have "(of_int (2 ^ n) :: rat) \<le> of_int p" and "(of_int p :: rat) < of_int (2 ^ (n + 1))"
    by (simp_all only: of_int_le_iff of_int_less_iff)
  then show "2 powi (bitlen p - 1) \<le> (of_int p :: rat)" and "of_int p < (2 powi bitlen p :: rat)"
    by (simp_all add: len power_int_add)
qed

lemma ulp_exp_range:
  assumes "0 < x"
  shows "2 ^ 52 \<le> x / 2 powi ulp_exp x \<and> x / 2 powi ulp_exp x < 2 ^ 53"
proof -
  obtain p q where pq: "quotient_of x = (p, q)"
    by (cases "quotient_of x")
  then have q: "0 < q" and x: "x = of_int p / of_int q"
    by (simp_all add: quotient_of_denom_pos quotient_of_div)
  with assms have p: "0 < p"
    by (simp add: zero_less_divide_iff)
  define e where "e = bitlen p - bitlen q - 53"
  have "2 powi (bitlen p - 1) / 2 powi bitlen q < of_int p / (of_int q :: rat)"
    using bitlen_range [OF p] bitlen_range [OF q] p q
    by (intro frac_less2) simp_all
  then have "2 powi (bitlen p - 1) / 2 powi bitlen q / 2 powi e < x / 2 powi e"
    unfolding x by (rule divide_strict_right_mono) simp
  then have lo: "2 ^ 52 < x / 2 powi e"
    by (simp add: power_int_diff e_def)
  have "of_int p / (of_int q :: rat) < 2 powi bitlen p / 2 powi (bitlen q - 1)"
    using bitlen_range [OF p] bitlen_range [OF q] p q
    by (intro frac_less) simp_all
  then have "x / 2 powi e < 2 powi bitlen p / 2 powi (bitlen q - 1) / 2 powi e"
    unfolding x by (rule divide_strict_right_mono) simp
  then have hi: "x / 2 powi e < 2 ^ 54"
    by (simp add: power_int_diff e_def)
  have "(2 :: rat) powi (e + 1) = 2 powi e * 2"
    by (subst power_int_add) simp_all
  then have "x / 2 powi (e + 1) = x / 2 powi e / 2"
    by (simp only: divide_divide_eq_left)
  with lo hi show ?thesis
    by (auto simp: ulp_exp_def pq Let_def e_def [symmetric])
qed

text \<open>The exponent is determined by its range, which gives a way to evaluate \<open>f64\<close>.\<close>

lemma ulp_exp_unique:
  assumes "2 ^ 52 \<le> x / 2 powi e" and "x / 2 powi e < 2 ^ 53"
  shows "ulp_exp x = e"
proof -
  have "0 < x / 2 powi e"
    using assms(1) by (rule less_le_trans [rotated]) simp
  then have x: "0 < x"
    by (simp only: div_powi_pos)
  note r = ulp_exp_range [OF x]
  have *: "\<not> a < b" if a: "2 ^ 52 \<le> x / 2 powi b" and b: "x / 2 powi a < 2 ^ 53" for a b
  proof
    assume "a < b"
    then have "2 powi (a + 1) \<le> (2 :: rat) powi b"
      by (intro power_int_increasing) simp_all
    then have "2 * 2 powi a \<le> (2 :: rat) powi b"
      by (simp add: power_int_add mult.commute)
    moreover have "2 ^ 52 * 2 powi b \<le> x" and "x < 2 ^ 53 * 2 powi a"
      using a b by (simp_all add: pos_le_divide_eq pos_divide_less_eq)
    ultimately show False
      by simp
  qed
  from *[of e "ulp_exp x"] *[of "ulp_exp x" e] assms r show ?thesis
    by linarith
qed

lemma f64_eval:
  assumes "2 ^ 52 \<le> x / 2 powi e" and "x / 2 powi e < 2 ^ 53" and "\<bar>x / 2 powi e - of_int k\<bar> < 1 / 2"
  shows "f64 x = of_int k * 2 powi e"
proof -
  have "0 < x / 2 powi e"
    using assms(1) by (rule less_le_trans [rotated]) simp
  then have "0 < x"
    by (simp only: div_powi_pos)
  then show ?thesis
    by (simp add: f64_def ulp_exp_unique [OF assms(1,2)] round_even_near [OF assms(3)])
qed


section \<open>What rounding preserves\<close>

text \<open>Below \<open>2\<^sup>5\<^sup>3\<close> every integer is a multiple of the last place.\<close>

lemma int_multiple_of_ulp:
  assumes "0 < x" and "x < 2 ^ 53"
  obtains m where "of_int (int n) / 2 powi ulp_exp x = (of_int m :: rat)"
proof -
  have "ulp_exp x < 1"
  proof (rule ccontr)
    assume "\<not> ulp_exp x < 1"
    then have "(2 :: rat) powi 1 \<le> 2 powi ulp_exp x"
      by (intro power_int_increasing) simp_all
    moreover have "2 ^ 52 * 2 powi ulp_exp x \<le> x"
      using ulp_exp_range [OF assms(1)] by (simp add: pos_le_divide_eq)
    ultimately show False
      using assms(2) by simp
  qed
  then obtain k where k: "ulp_exp x = - int k"
    by (metis int_one_le_iff_zero_less linorder_not_less nonpos_int_cases zless_imp_add1_zle)
  have "of_int (int n) / 2 powi ulp_exp x = (of_int (int n * 2 ^ k) :: rat)"
    by (simp add: k power_int_minus divide_inverse)
  then show thesis by (rule that)
qed

lemma abs_scaled_diff: "0 < (u :: rat) \<Longrightarrow> \<bar>x / u - m\<bar> = \<bar>x - m * u\<bar> / u"
proof -
  assume u: "0 < u"
  have "x / u - m = (x - m * u) / u"
    using u by (simp add: diff_divide_distrib)
  with u show ?thesis
    by (simp add: abs_divide)
qed

lemma f64_near_int:
  assumes "0 < x" and "x < 2 ^ 53" and "\<bar>x - of_nat n\<bar> * 2 ^ 54 < x"
  shows "f64 x = of_nat n"
proof -
  let ?u = "2 powi ulp_exp x :: rat"
  have u: "0 < ?u" by simp
  obtain m where m: "of_int (int n) / ?u = of_int m"
    using int_multiple_of_ulp [OF assms(1,2)] .
  then have n: "of_nat n = of_int m * ?u"
    using u by (simp add: nonzero_divide_eq_eq)
  have "\<bar>x / ?u - of_int m\<bar> = \<bar>x - of_nat n\<bar> / ?u"
    unfolding n by (rule abs_scaled_diff [OF u])
  also have "\<dots> < x / 2 ^ 54 / ?u"
    using assms(3) u by (intro divide_strict_right_mono) simp_all
  also have "\<dots> < 1 / 2"
    using ulp_exp_range [OF assms(1)] by (simp add: pos_divide_less_eq)
  finally have "round_even (x / ?u) = m"
    by (rule round_even_near)
  with assms(1) n show ?thesis
    by (simp add: f64_def)
qed

lemma f64_of_nat: "n \<le> 2 ^ 53 \<Longrightarrow> f64 (of_nat n) = of_nat n"
proof (cases "n = 0 \<or> n = 2 ^ 53")
  case True
  moreover have "f64 (2 ^ 53) = of_int (2 ^ 52) * 2 powi 1"
    by (rule f64_eval) simp_all
  ultimately show ?thesis
    by (auto simp: f64_def)
next
  case False
  assume "n \<le> 2 ^ 53"
  with False have "0 < n" and "n < 2 ^ 53"
    by simp_all
  then have "0 < (of_nat n :: rat)" and "(of_nat n :: rat) < of_nat (2 ^ 53)"
    by (simp_all only: of_nat_0_less_iff of_nat_less_iff)
  then show ?thesis
    by (intro f64_near_int) simp_all
qed

lemma round_even_lower: "y - 1 / 2 \<le> of_int (round_even y)"
  unfolding round_even_def Let_def by (simp split: if_split, linarith)

lemma f64_error_below:
  assumes "0 < x"
  shows "x - x / 2 ^ 53 \<le> f64 x"
proof -
  let ?u = "2 powi ulp_exp x :: rat"
  have u: "0 < ?u" by simp
  have "?u / 2 \<le> x / 2 ^ 53"
    using ulp_exp_range [OF assms] u by (simp add: pos_le_divide_eq mult.commute)
  then have "x - x / 2 ^ 53 \<le> (x / ?u - 1 / 2) * ?u"
    using u by (simp add: field_simps)
  also have "\<dots> \<le> of_int (round_even (x / ?u)) * ?u"
    using round_even_lower u by (intro mult_right_mono) simp_all
  finally show ?thesis
    using assms by (simp add: f64_def)
qed

lemma f64_error:
  assumes "0 < x"
  shows "f64 x \<le> x + x / 2 ^ 53"
proof -
  let ?u = "2 powi ulp_exp x :: rat"
  have u: "0 < ?u" by simp
  have "of_int (round_even (x / ?u)) * ?u \<le> (x / ?u + 1 / 2) * ?u"
    using round_even_bounds(2) u by (intro mult_right_mono) simp_all
  also have "\<dots> = x + ?u / 2"
    using u by (simp add: field_simps)
  also have "?u / 2 \<le> x / 2 ^ 53"
    using ulp_exp_range [OF assms] u by (simp add: pos_le_divide_eq mult.commute)
  finally show ?thesis
    using assms by (simp add: f64_def)
qed

lemma f64_ge_nat:
  assumes "x < 2 ^ 53" and "of_nat n \<le> x"
  shows "of_nat n \<le> f64 x"
proof (cases "0 < x")
  case True
  let ?u = "2 powi ulp_exp x :: rat"
  have u: "0 < ?u" by simp
  obtain m where m: "of_int (int n) / ?u = of_int m"
    using int_multiple_of_ulp [OF True assms(1)] .
  have "of_int m \<le> x / ?u"
    using assms(2) u by (simp add: m [symmetric] divide_right_mono)
  then have "m \<le> round_even (x / ?u)"
    using round_even_bounds(1) [of "x / ?u"] by (simp add: le_floor_iff [symmetric])
  then have "of_int m * ?u \<le> of_int (round_even (x / ?u)) * ?u"
    using u by (intro mult_right_mono) simp_all
  moreover have "of_nat n = of_int m * ?u"
    using m u by (simp add: nonzero_divide_eq_eq)
  ultimately show ?thesis
    using True by (simp add: f64_def)
next
  case False
  with assms(2) show ?thesis by (simp add: f64_def)
qed

text \<open>
  Truncation is not changed by rounding when the next integer is further away than the
  rounding error, or when the value is within a quarter of the last place of an integer.
\<close>

lemma floor_f64:
  assumes "of_nat n \<le> x" and "x + x / 2 ^ 53 < of_nat n + 1" and "x < 2 ^ 53"
  shows "\<lfloor>f64 x\<rfloor> = int n"
proof (cases "0 < x")
  case True
  have "f64 x < of_nat n + 1"
    using f64_error [OF True] assms(2) by simp
  moreover have "of_nat n \<le> f64 x"
    using assms(3,1) by (rule f64_ge_nat)
  ultimately show ?thesis
    by (intro floor_unique) simp_all
next
  case False
  with assms(1) have "x = 0 \<and> n = 0"
    using of_nat_0_le_iff [of n, where 'a = rat] by (metis linorder_not_le order_antisym order_trans of_nat_eq_0_iff)
  then show ?thesis by (simp add: f64_def)
qed

end
