(* ===== verification/Metrics.thy ===== *)
theory Metrics
  imports Go_Strings Float64 "HOL-Library.Multiset"
begin

text \<open>
  \<open>pkg/metrics/metrics.go\<close>: the collector of counters and round-trip times, the
  percentiles and the rate of a snapshot, and the CSV file. The collector's methods hold
  its mutex for their whole body, so each is one atomic function on the record; the
  interleavings of the workers are lists of such steps (locale \<open>counter_set\<close>).
\<close>

section \<open>The collector\<close>

record collector =
  tx :: u64
  rx :: u64
  dropTimeout :: u64
  dropSendErr :: u64
  dropDecode :: u64
  dropMismatch :: u64
  dropOther :: u64
  latencyUS :: "int list"

definition new_collector :: collector where
  "new_collector = \<lparr>tx = 0, rx = 0, dropTimeout = 0, dropSendErr = 0, dropDecode = 0,
     dropMismatch = 0, dropOther = 0, latencyUS = []\<rparr>"

definition AddTx :: "u64 \<Rightarrow> collector \<Rightarrow> collector" where
  "AddTx n c = c\<lparr>tx := tx c + n\<rparr>"

definition AddRx :: "u64 \<Rightarrow> collector \<Rightarrow> collector" where
  "AddRx n c = c\<lparr>rx := rx c + n\<rparr>"

definition AddDrop :: "u64 \<Rightarrow> collector \<Rightarrow> collector" where
  "AddDrop n c = c\<lparr>dropOther := dropOther c + n\<rparr>"

definition AddDropTimeout :: "u64 \<Rightarrow> collector \<Rightarrow> collector" where
  "AddDropTimeout n c = c\<lparr>dropTimeout := dropTimeout c + n\<rparr>"

definition AddDropSendErr :: "u64 \<Rightarrow> collector \<Rightarrow> collector" where
  "AddDropSendErr n c = c\<lparr>dropSendErr := dropSendErr c + n\<rparr>"

definition AddDropDecode :: "u64 \<Rightarrow> collector \<Rightarrow> collector" where
  "AddDropDecode n c = c\<lparr>dropDecode := dropDecode c + n\<rparr>"

definition AddDropMismatch :: "u64 \<Rightarrow> collector \<Rightarrow> collector" where
  "AddDropMismatch n c = c\<lparr>dropMismatch := dropMismatch c + n\<rparr>"

text \<open>\<open>time.Duration.Microseconds\<close> is \<open>int64(d) / 1e3\<close>, truncated.\<close>

definition microseconds :: "int \<Rightarrow> int" where
  "microseconds d = go_div d 1000"

definition AddLatency :: "int \<Rightarrow> collector \<Rightarrow> collector" where
  "AddLatency d c = c\<lparr>latencyUS := latencyUS c @ [microseconds d]\<rparr>"

lemmas collector_defs = AddTx_def AddRx_def AddDrop_def AddDropTimeout_def AddDropSendErr_def
  AddDropDecode_def AddDropMismatch_def AddLatency_def new_collector_def

section \<open>Percentiles\<close>

text \<open>
  The closure \<open>idx\<close> of \<open>percentiles\<close> for a slice of length \<open>n\<close>: the product of doubles
  is truncated to an \<open>int\<close> and clamped to the slice.
\<close>

definition perc_idx :: "nat \<Rightarrow> rat \<Rightarrow> int" where
  "perc_idx n p =
     (let i = \<lfloor>f64 (f64 (of_int (int n - 1)) * f64 p)\<rfloor>;
          i = (if i < 0 then 0 else i);
          i = (if int n \<le> i then int n - 1 else i)
      in i)"

definition percentiles :: "int list \<Rightarrow> int \<times> int \<times> int" where
  "percentiles vals =
     (if length vals = 0 then (0, 0, 0)
      else
        let cp = sort vals;
            idx = perc_idx (length cp)
        in (cp ! nat (idx (50 / 100)), cp ! nat (idx (95 / 100)), cp ! nat (idx (99 / 100))))"

text \<open>The doubles written \<open>0.50\<close>, \<open>0.95\<close> and \<open>0.99\<close>.\<close>

lemma f64_50: "f64 (50 / 100) = 1 / 2"
proof -
  have "f64 (50 / 100) = of_int (2 ^ 52) * 2 powi (- 53)"
    by (rule f64_eval) (simp_all add: power_int_minus)
  then show ?thesis by (simp add: power_int_minus)
qed

lemma f64_95: "f64 (95 / 100) = 8556839292003942 / 2 ^ 53"
proof -
  have "f64 (95 / 100) = of_int 8556839292003942 * 2 powi (- 53)"
    by (rule f64_eval) (simp_all add: power_int_minus)
  then show ?thesis by (simp add: power_int_minus)
qed

lemma f64_99: "f64 (99 / 100) = 8917127262193582 / 2 ^ 53"
proof -
  have "f64 (99 / 100) = of_int 8917127262193582 * 2 powi (- 53)"
    by (rule f64_eval) (simp_all add: power_int_minus)
  then show ?thesis by (simp add: power_int_minus)
qed

text \<open>
  The index computed in floating point is the exact index \<open>\<lfloor>(n - 1) p\<rfloor>\<close>: for a multiple
  of 20 (of 100) the rounded product is the integer itself, and otherwise the rounding
  errors are smaller than the distance to the next integer.
\<close>

lemma rat_bound: "k \<le> 2 ^ 40 \<Longrightarrow> (of_nat k :: rat) \<le> 1099511627776"
  using of_nat_mono [of k "2 ^ 40", where 'a = rat] by simp

lemma rat_divmod:
  fixes k m d q r :: nat
  assumes "0 < d" and "q = k * m div d" and "r = k * m mod d"
  shows "of_nat m * of_nat k = of_nat d * of_nat q + (of_nat r :: rat) \<and> of_nat r + 1 \<le> (of_nat d :: rat)"
proof -
  have "m * k = d * q + r" and "r + 1 \<le> d"
    using assms by (simp_all add: mult.commute Suc_le_eq)
  then have "of_nat (m * k) = (of_nat (d * q + r) :: rat)" and "of_nat (r + 1) \<le> (of_nat d :: rat)"
    by (simp_all only: of_nat_le_iff)
  then show ?thesis
    by (simp add: add.commute)
qed

lemma floor_mult_95:
  assumes "k \<le> 2 ^ 40"
  shows "\<lfloor>f64 (of_nat k * (8556839292003942 / 2 ^ 53))\<rfloor> = int (k * 95 div 100)"
proof -
  define q r where "q = k * 19 div 20" and "r = k * 19 mod 20"
  note K = rat_divmod [where m = 19 and d = 20, OF _ q_def r_def, simplified] rat_bound [OF assms]
  have div: "k * 95 div 100 = q"
    using div_mult_mult1 [of 5 "k * 19" 20] by (simp add: q_def)
  show ?thesis
  proof (cases "r = 0")
    case True
    show ?thesis
    proof (cases "k = 0")
      case True
      then show ?thesis by (simp add: f64_def)
    next
      case False
      then have "1 \<le> (of_nat k :: rat)" by simp
      have "of_nat k * (8556839292003942 / 2 ^ 53) - of_nat q = (- (of_nat k * (8 / (20 * 2 ^ 53))) :: rat)"
        using K True by simp
      then have "\<bar>of_nat k * (8556839292003942 / 2 ^ 53) - of_nat q\<bar> * 2 ^ 54 = (of_nat k * (16 / 20) :: rat)"
        by (simp add: abs_mult)
      then have "f64 (of_nat k * (8556839292003942 / 2 ^ 53)) = of_nat q"
        using K \<open>1 \<le> of_nat k\<close> by (intro f64_near_int) simp_all
      then show ?thesis by (simp add: div)
    qed
  next
    case False
    then have "1 \<le> (of_nat r :: rat)" by simp
    with K show ?thesis
      unfolding div by (intro floor_f64) simp_all
  qed
qed

lemma floor_mult_99:
  assumes "k \<le> 2 ^ 40"
  shows "\<lfloor>f64 (of_nat k * (8917127262193582 / 2 ^ 53))\<rfloor> = int (k * 99 div 100)"
proof -
  define q r where "q = k * 99 div 100" and "r = k * 99 mod 100"
  note K = rat_divmod [where m = 99 and d = 100, OF _ q_def r_def, simplified] rat_bound [OF assms]
  have div: "k * 99 div 100 = q"
    using div_mult_mult1 [of 1 "k * 99" 100] by (simp add: q_def)
  show ?thesis
  proof (cases "r = 0")
    case True
    show ?thesis
    proof (cases "k = 0")
      case True
      then show ?thesis by (simp add: f64_def)
    next
      case False
      then have "1 \<le> (of_nat k :: rat)" by simp
      have "of_nat k * (8917127262193582 / 2 ^ 53) - of_nat q = (- (of_nat k * (8 / (100 * 2 ^ 53))) :: rat)"
        using K True by simp
      then have "\<bar>of_nat k * (8917127262193582 / 2 ^ 53) - of_nat q\<bar> * 2 ^ 54 = (of_nat k * (16 / 100) :: rat)"
        by (simp add: abs_mult)
      then have "f64 (of_nat k * (8917127262193582 / 2 ^ 53)) = of_nat q"
        using K \<open>1 \<le> of_nat k\<close> by (intro f64_near_int) simp_all
      then show ?thesis by (simp add: div)
    qed
  next
    case False
    then have "1 \<le> (of_nat r :: rat)" by simp
    with K show ?thesis
      unfolding div by (intro floor_f64) simp_all
  qed
qed

lemma f64_int_eq: "k \<le> 2 ^ 40 \<Longrightarrow> f64 (of_nat k) = of_nat k"
  by (rule f64_of_nat) simp

lemma perc_idx_exact:
  assumes "0 < n" and "n \<le> 2 ^ 40"
  shows "perc_idx n (50 / 100) = int ((n - 1) * 50 div 100)"
    and "perc_idx n (95 / 100) = int ((n - 1) * 95 div 100)"
    and "perc_idx n (99 / 100) = int ((n - 1) * 99 div 100)"
proof -
  define k where "k = n - 1"
  then have n: "n = Suc k" and k: "k \<le> 2 ^ 40"
    using assms by simp_all
  have conv: "of_int (int n - 1) = (of_nat k :: rat)"
    by (simp add: n)
  note K = rat_divmod [where m = 1 and d = 2, OF _ refl refl, of k, simplified] rat_bound [OF k]
  have half: "\<lfloor>f64 (of_nat k * (1 / 2))\<rfloor> = int (k * 50 div 100)"
    using K div_mult_mult1 [of 50 k 2] by (subst floor_f64 [where n = "k div 2"]) (simp_all add: mult.commute)
  have le: "k * p div 100 \<le> k" if "p \<le> 100" for p
  proof -
    have "k * p div 100 \<le> k * 100 div 100"
      using that by (intro div_le_mono mult_le_mono2)
    then show ?thesis by simp
  qed
  show "perc_idx n (50 / 100) = int ((n - 1) * 50 div 100)"
    unfolding perc_idx_def conv f64_int_eq [OF k] f64_50 half using le [of 50]
    by (simp add: Let_def n) presburger
  show "perc_idx n (95 / 100) = int ((n - 1) * 95 div 100)"
    unfolding perc_idx_def conv f64_int_eq [OF k] f64_95 floor_mult_95 [OF k] using le [of 95]
    by (simp add: Let_def n)
  show "perc_idx n (99 / 100) = int ((n - 1) * 99 div 100)"
    unfolding perc_idx_def conv f64_int_eq [OF k] f64_99 floor_mult_99 [OF k] using le [of 99]
    by (simp add: Let_def n)
qed

lemma percentiles_exact:
  assumes "vals \<noteq> []" and "length vals \<le> 2 ^ 40"
  shows "percentiles vals =
    (sort vals ! ((length vals - 1) * 50 div 100), sort vals ! ((length vals - 1) * 95 div 100),
     sort vals ! ((length vals - 1) * 99 div 100))"
proof -
  have "0 < length vals"
    using assms(1) by simp
  note idx = perc_idx_exact [OF this assms(2)]
  show ?thesis
    using assms(1)
    by (simp only: percentiles_def Let_def length_sort idx nat_int length_0_conv if_False)
qed

text \<open>The rank of an element of the sorted list among the recorded values.\<close>

lemma filter_sort_length: "length (filter P (sort xs)) = length (filter P xs)"
  by (metis mset_filter mset_sort size_mset)

lemma rank_below:
  assumes "k < length xs"
  shows "k + 1 \<le> length (filter (\<lambda>v. v \<le> sort xs ! k) xs)"
proof -
  let ?ys = "sort xs"
  have "\<forall>v \<in> set (take (k + 1) ?ys). v \<le> ?ys ! k"
  proof
    fix v assume "v \<in> set (take (k + 1) ?ys)"
    then obtain i where "i < k + 1" and "v = ?ys ! i"
      using assms by (auto simp: in_set_conv_nth)
    then show "v \<le> ?ys ! k"
      using assms by (auto intro: sorted_nth_mono)
  qed
  then have "filter (\<lambda>v. v \<le> ?ys ! k) (take (k + 1) ?ys) = take (k + 1) ?ys"
    by (simp add: filter_id_conv)
  then have "k + 1 \<le> length (filter (\<lambda>v. v \<le> ?ys ! k) (take (k + 1) ?ys @ drop (k + 1) ?ys))"
    using assms by (subst filter_append) simp
  then show ?thesis
    by (simp only: append_take_drop_id filter_sort_length)
qed

lemma rank_above:
  assumes "k < length xs"
  shows "length xs - k \<le> length (filter (\<lambda>v. sort xs ! k \<le> v) xs)"
proof -
  let ?ys = "sort xs"
  have "\<forall>v \<in> set (drop k ?ys). ?ys ! k \<le> v"
  proof
    fix v assume "v \<in> set (drop k ?ys)"
    then obtain i where "i < length ?ys - k" and "v = drop k ?ys ! i"
      by (auto simp: in_set_conv_nth)
    then have "k + i < length ?ys" and "v = ?ys ! (k + i)"
      by simp_all
    then show "?ys ! k \<le> v"
      by (auto intro: sorted_nth_mono)
  qed
  then have "filter (\<lambda>v. ?ys ! k \<le> v) (drop k ?ys) = drop k ?ys"
    by (simp add: filter_id_conv)
  then have "length xs - k \<le> length (filter (\<lambda>v. ?ys ! k \<le> v) (take k ?ys @ drop k ?ys))"
    by (subst filter_append) simp
  then show ?thesis
    by (simp only: append_take_drop_id filter_sort_length)
qed

section \<open>Snapshots\<close>

record snapshot =
  Timestamp :: int
  Mode :: string
  Transport :: string
  TargetPPS :: int
  AchievedPPS :: int
  Tx :: u64
  Rx :: u64
  Drop :: u64
  DropTimeout :: u64
  DropSendErr :: u64
  DropDecode :: u64
  DropMismatch :: u64
  DropOther :: u64
  P50US :: int
  P95US :: int
  P99US :: int
  Channels :: int

text \<open>
  \<open>time.Duration.Seconds\<close>: whole seconds plus the remaining nanoseconds, in doubles.
\<close>

definition seconds :: "int \<Rightarrow> rat" where
  "seconds d = f64 (f64 (of_int (go_div d 1000000000)) + f64 (f64 (of_int (go_mod d 1000000000)) / 1000000000))"

definition achieved_pps :: "u64 \<Rightarrow> int \<Rightarrow> int" where
  "achieved_pps received since =
     (if 0 < since then \<lfloor>f64 (f64 (of_int (uint received)) / seconds since)\<rfloor> else 0)"

text \<open>\<open>now\<close> is the result of \<open>time.Now()\<close> inside the method.\<close>

definition Collector_Snapshot :: "int \<Rightarrow> string \<Rightarrow> string \<Rightarrow> int \<Rightarrow> int \<Rightarrow> int \<Rightarrow> collector \<Rightarrow> snapshot" where
  "Collector_Snapshot now mode transport targetPPS channels since c =
     (let (p50, p95, p99) = percentiles (latencyUS c);
          achieved = achieved_pps (rx c) since;
          drp = dropTimeout c + dropSendErr c + dropDecode c + dropMismatch c + dropOther c
      in \<lparr>Timestamp = now, Mode = mode, Transport = transport, TargetPPS = targetPPS,
          AchievedPPS = achieved, Tx = tx c, Rx = rx c, Drop = drp,
          DropTimeout = dropTimeout c, DropSendErr = dropSendErr c, DropDecode = dropDecode c,
          DropMismatch = dropMismatch c, DropOther = dropOther c,
          P50US = p50, P95US = p95, P99US = p99, Channels = channels\<rparr>)"

lemma snapshot_counts [simp]:
  "Tx (Collector_Snapshot now m t p ch s c) = tx c"
  "Rx (Collector_Snapshot now m t p ch s c) = rx c"
  "Drop (Collector_Snapshot now m t p ch s c) =
     dropTimeout c + dropSendErr c + dropDecode c + dropMismatch c + dropOther c"
  "DropTimeout (Collector_Snapshot now m t p ch s c) = dropTimeout c"
  "DropSendErr (Collector_Snapshot now m t p ch s c) = dropSendErr c"
  "DropDecode (Collector_Snapshot now m t p ch s c) = dropDecode c"
  "DropMismatch (Collector_Snapshot now m t p ch s c) = dropMismatch c"
  "DropOther (Collector_Snapshot now m t p ch s c) = dropOther c"
  "AchievedPPS (Collector_Snapshot now m t p ch s c) = achieved_pps (rx c) s"
  "TargetPPS (Collector_Snapshot now m t p ch s c) = p"
  "Channels (Collector_Snapshot now m t p ch s c) = ch"
  "(P50US (Collector_Snapshot now m t p ch s c), P95US (Collector_Snapshot now m t p ch s c),
    P99US (Collector_Snapshot now m t p ch s c)) = percentiles (latencyUS c)"
  by (simp_all add: Collector_Snapshot_def Let_def split: prod.splits)

lemma achieved_pps_zero [simp]: "achieved_pps 0 since = 0"
  by (simp add: achieved_pps_def f64_def)

lemma seconds_whole: "0 \<le> s \<Longrightarrow> s \<le> 2 ^ 53 \<Longrightarrow> seconds (s * 1000000000) = of_int s"
  using f64_of_nat [of "nat s"] by (simp add: seconds_def go_div_nonneg go_mod_nonneg f64_def)

lemma achieved_pps_whole:
  assumes "0 < s" and "s \<le> 2 ^ 53" and "uint received < 2 ^ 53"
  shows "achieved_pps received (s * 1000000000) = uint received div s"
proof -
  define n d where "n = nat (uint received)" and "d = nat s"
  have nd: "uint received = int n" "s = int d" and d: "0 < d"
    using assms by (simp_all add: n_def d_def)
  have n: "n < 2 ^ 53"
    using assms(3) by (simp add: nd)
  let ?q = "n div d"
  let ?x = "of_nat n / (of_nat d :: rat)"
  have mul: "d * ?q \<le> n" and mul1: "n + 1 \<le> d * (?q + 1)"
    using d by (simp_all add: Suc_le_eq dividend_less_times_div)
  from of_nat_mono [OF mul, where 'a = rat] have lo: "of_nat ?q \<le> ?x"
    using d by (simp add: pos_le_divide_eq mult.commute)
  have n': "(of_nat n :: rat) < 2 ^ 53"
    using n by (metis of_nat_less_iff of_nat_numeral of_nat_power)
  have "?x + ?x / 2 ^ 53 = (of_nat n + of_nat n / 2 ^ 53) / of_nat d"
    by (simp add: add_divide_distrib)
  also have "\<dots> < (of_nat n + 1) / of_nat d"
    using n' d by (intro divide_strict_right_mono) simp_all
  also have "\<dots> \<le> of_nat ?q + 1"
    using of_nat_mono [OF mul1, where 'a = rat] d by (simp add: pos_divide_le_eq algebra_simps)
  finally have hi: "?x + ?x / 2 ^ 53 < of_nat ?q + 1" .
  have "n \<le> n * d"
    using d by simp
  from of_nat_mono [OF this, where 'a = rat] have "?x \<le> of_nat n"
    using d by (simp add: pos_divide_le_eq)
  with n' have "\<lfloor>f64 ?x\<rfloor> = int ?q"
    by (intro floor_f64 lo hi) simp
  moreover have "f64 (of_nat n) = (of_nat n :: rat)"
    using n by (intro f64_of_nat) simp
  ultimately show ?thesis
    using assms d seconds_whole [of s] by (simp add: achieved_pps_def nd zdiv_int)
qed

text \<open>
  Over any duration: the four roundings change the rate by less than one part in \<open>2\<^sup>5\<^sup>1\<close>.
\<close>

definition exact_rate :: "u64 \<Rightarrow> int \<Rightarrow> rat" where
  "exact_rate received since = of_int (uint received * 1000000000) / of_int since"

lemma f64_nonneg: "0 \<le> f64 x"
proof (cases "0 < x")
  case True
  then have "0 \<le> x - x / 2 ^ 53" by simp
  also have "\<dots> \<le> f64 x" by (rule f64_error_below [OF True])
  finally show ?thesis .
qed (simp add: f64_def)

lemma f64_between:
  assumes "0 \<le> x"
  shows "x * (1 - 1 / 2 ^ 53) \<le> f64 x \<and> f64 x \<le> x * (1 + 1 / 2 ^ 53)"
proof (cases "0 < x")
  case True
  with f64_error [OF True] f64_error_below [OF True] show ?thesis
    by (simp add: algebra_simps)
next
  case False
  with assms show ?thesis by (simp add: f64_def)
qed

lemma seconds_between:
  assumes "0 < d" and "in_int64 d"
  shows "of_int d / 1000000000 * (1 - 1 / 2 ^ 53) ^ 2 \<le> seconds d
    \<and> seconds d \<le> of_int d / 1000000000 * (1 + 1 / 2 ^ 53) ^ 2"
proof -
  define q r where "q = nat (d div 1000000000)" and "r = nat (d mod 1000000000)"
  have d: "d = int q * 1000000000 + int r"
    using assms(1) by (simp add: q_def r_def)
  have "d div 1000000000 \<le> max_int64 div 1000000000"
    using assms(2) by (intro zdiv_mono1) (simp_all add: in_int64_def)
  then have q: "q \<le> 2 ^ 53" and r: "r \<le> 2 ^ 53"
    by (simp_all add: q_def r_def max_int64_def nat_le_iff)
  have sec: "seconds d = f64 (of_nat q + f64 (of_nat r / 1000000000))"
    using assms(1) f64_of_nat [OF q] f64_of_nat [OF r]
    by (simp add: seconds_def go_div_nonneg go_mod_nonneg q_def r_def of_nat_nat)
  let ?y = "of_nat r / 1000000000 :: rat" and ?Q = "of_nat q :: rat" and ?u = "1 / 2 ^ 53 :: rat"
  have y: "?y * (1 - ?u) \<le> f64 ?y" "f64 ?y \<le> ?y * (1 + ?u)"
    using f64_between [of ?y] by simp_all
  have s: "of_int d / 1000000000 = ?Q + ?y"
    by (simp add: d add_divide_distrib)
  have "?Q * (1 - ?u) \<le> ?Q" and "?Q \<le> ?Q * (1 + ?u)"
    by (simp_all add: algebra_simps)
  with y have lo: "(?Q + ?y) * (1 - ?u) \<le> ?Q + f64 ?y" and hi: "?Q + f64 ?y \<le> (?Q + ?y) * (1 + ?u)"
    by (simp_all only: distrib_right add_mono)
  have "(?Q + ?y) * (1 - ?u) * (1 - ?u) \<le> (?Q + f64 ?y) * (1 - ?u)"
    by (rule mult_right_mono [OF lo]) simp
  also have "\<dots> \<le> f64 (?Q + f64 ?y)"
    using f64_between [of "?Q + f64 ?y"] f64_nonneg [of ?y] by simp
  finally have low: "(?Q + ?y) * (1 - ?u) ^ 2 \<le> seconds d"
    by (simp only: sec power2_eq_square mult.assoc)
  have "f64 (?Q + f64 ?y) \<le> (?Q + f64 ?y) * (1 + ?u)"
    using f64_between [of "?Q + f64 ?y"] f64_nonneg [of ?y] by simp
  also have "\<dots> \<le> (?Q + ?y) * (1 + ?u) * (1 + ?u)"
    by (rule mult_right_mono [OF hi]) simp
  finally have "seconds d \<le> (?Q + ?y) * (1 + ?u) ^ 2"
    by (simp only: sec power2_eq_square mult.assoc)
  with low show ?thesis by (simp only: s)
qed

lemma achieved_pps_near:
  assumes "0 < since" and "in_int64 since" and "uint received < 2 ^ 53"
  shows "\<exists>v. \<bar>v - exact_rate received since\<bar> \<le> exact_rate received since / 2 ^ 51
    \<and> achieved_pps received since = \<lfloor>v\<rfloor>"
proof -
  let ?u = "1 / 2 ^ 53 :: rat" and ?s = "of_int since / 1000000000 :: rat"
  define n where "n = nat (uint received)"
  have n: "uint received = int n"
    by (simp add: n_def)
  have "int n < 2 ^ 53"
    using assms(3) by (simp only: n)
  then have n53: "n \<le> 2 ^ 53" by simp
  let ?n = "of_nat n :: rat" and ?x = "of_nat n / seconds since :: rat"
  have s: "0 < ?s" using assms(1) by simp
  note sec = seconds_between [OF assms(1,2)]
  have "0 < ?s * (1 - ?u) ^ 2"
    using s by (intro mult_pos_pos) simp_all
  with sec have pos: "0 < seconds since" by linarith
  let ?R = "?n / ?s"
  have R: "exact_rate received since = ?R"
    by (simp add: exact_rate_def n)
  have lo: "?R / (1 + ?u) ^ 2 \<le> ?x"
    using sec s pos by (simp only: divide_divide_eq_left) (intro divide_left_mono mult_pos_pos, simp_all)
  have hi: "?x \<le> ?R / (1 - ?u) ^ 2"
    using sec s pos by (simp only: divide_divide_eq_left) (intro divide_left_mono mult_pos_pos, simp_all)
  have R0: "0 \<le> ?R" using s by simp
  have x0: "0 \<le> ?x" using pos by simp
  note f = f64_between [OF x0]
  have "f64 ?x \<le> ?R / (1 - ?u) ^ 2 * (1 + ?u)"
    using f mult_right_mono [OF hi, of "1 + ?u"] by simp
  also have "\<dots> = ?R * ((1 + ?u) / (1 - ?u) ^ 2)" by simp
  also have "\<dots> \<le> ?R * (1 + 1 / 2 ^ 51)"
    using R0 by (intro mult_left_mono) (simp_all add: power2_eq_square)
  finally have up: "f64 ?x \<le> ?R + ?R / 2 ^ 51" by (simp add: algebra_simps)
  have "?R * (1 - 1 / 2 ^ 51) \<le> ?R * ((1 - ?u) / (1 + ?u) ^ 2)"
    using R0 by (intro mult_left_mono) (simp_all add: power2_eq_square)
  also have "\<dots> = ?R / (1 + ?u) ^ 2 * (1 - ?u)" by simp
  also have "\<dots> \<le> f64 ?x"
    using f mult_right_mono [OF lo, of "1 - ?u"] by simp
  finally have down: "?R - ?R / 2 ^ 51 \<le> f64 ?x" by (simp add: algebra_simps)
  have "achieved_pps received since = \<lfloor>f64 ?x\<rfloor>"
    using assms(1) f64_of_nat [OF n53] by (simp add: achieved_pps_def n)
  moreover have "\<bar>f64 ?x - ?R\<bar> \<le> ?R / 2 ^ 51"
    using up down by (simp only: abs_le_iff) linarith
  ultimately show ?thesis
    by (intro exI [of _ "f64 ?x"]) (simp only: R)
qed

lemma floor_near:
  assumes "\<bar>v - x\<bar> < 1"
  shows "\<bar>\<lfloor>v\<rfloor> - \<lfloor>x\<rfloor>\<bar> \<le> (1 :: int)"
proof -
  have "x < v + 1" and "v < x + 1"
    using assms by (simp_all only: abs_less_iff) linarith+
  then have "\<lfloor>x\<rfloor> \<le> \<lfloor>v + 1\<rfloor>" and "\<lfloor>v\<rfloor> \<le> \<lfloor>x + 1\<rfloor>"
    by (intro floor_mono; simp)+
  then show ?thesis by simp
qed

section \<open>Concurrent use of the collector\<close>

text \<open>
  What the load generator relies on: a call of one of the \<open>Add\<close> methods changes its own
  counter and no other. Then the counters after any number of calls depend only on which
  calls were made, not on how the calls of different workers were interleaved.
\<close>

locale counter_set =
  fixes get :: "'k \<Rightarrow> 'c \<Rightarrow> 'n::comm_monoid_add" and bump :: "'k \<Rightarrow> 'n \<Rightarrow> 'c \<Rightarrow> 'c"
  assumes get_bump: "get k (bump j n c) = (if k = j then get k c + n else get k c)"
begin

lemma get_bumps:
  "get k (fold (\<lambda>(j, n). bump j n) es c) =
    get k c + sum_mset (image_mset snd (filter_mset (\<lambda>e. fst e = k) (mset es)))"
  by (induction es arbitrary: c) (auto simp: get_bump ac_simps)

lemma bumps_order_irrelevant:
  "mset es = mset es' \<Longrightarrow>
    get k (fold (\<lambda>(j, n). bump j n) es c) = get k (fold (\<lambda>(j, n). bump j n) es' c)"
  by (simp add: get_bumps)

end

datatype counter = CTx | CRx | CDropTimeout | CDropSendErr | CDropDecode | CDropMismatch | CDropOther

fun read_counter :: "counter \<Rightarrow> collector \<Rightarrow> u64" where
  "read_counter CTx c = tx c"
| "read_counter CRx c = rx c"
| "read_counter CDropTimeout c = dropTimeout c"
| "read_counter CDropSendErr c = dropSendErr c"
| "read_counter CDropDecode c = dropDecode c"
| "read_counter CDropMismatch c = dropMismatch c"
| "read_counter CDropOther c = dropOther c"

fun add_counter :: "counter \<Rightarrow> u64 \<Rightarrow> collector \<Rightarrow> collector" where
  "add_counter CTx n c = AddTx n c"
| "add_counter CRx n c = AddRx n c"
| "add_counter CDropTimeout n c = AddDropTimeout n c"
| "add_counter CDropSendErr n c = AddDropSendErr n c"
| "add_counter CDropDecode n c = AddDropDecode n c"
| "add_counter CDropMismatch n c = AddDropMismatch n c"
| "add_counter CDropOther n c = AddDrop n c"

interpretation counters: counter_set read_counter add_counter
proof unfold_locales
  fix k j :: counter and n c
  show "read_counter k (add_counter j n c) = (if k = j then read_counter k c + n else read_counter k c)"
    by (cases k; cases j) (simp_all add: collector_defs)
qed

lemma latency_add_counter [simp]: "latencyUS (add_counter j n c) = latencyUS c"
  by (cases j) (simp_all add: collector_defs)

lemma read_counter_AddLatency [simp]: "read_counter k (AddLatency d c) = read_counter k c"
  by (cases k) (simp_all add: collector_defs)

lemma latencyUS_AddLatency [simp]: "latencyUS (AddLatency d c) = latencyUS c @ [microseconds d]"
  by (simp add: AddLatency_def)

text \<open>A call of one of the collector's methods by some worker.\<close>

datatype collector_call = Count counter u64 | Latency int

fun perform :: "collector_call \<Rightarrow> collector \<Rightarrow> collector" where
  "perform (Count k n) c = add_counter k n c"
| "perform (Latency d) c = AddLatency d c"

fun count_of :: "collector_call \<Rightarrow> (counter \<times> u64) option" where
  "count_of (Count k n) = Some (k, n)"
| "count_of (Latency d) = None"

fun latency_of :: "collector_call \<Rightarrow> int option" where
  "latency_of (Count k n) = None"
| "latency_of (Latency d) = Some (microseconds d)"

lemma add_counter_AddLatency: "add_counter j n (AddLatency d c) = AddLatency d (add_counter j n c)"
  by (cases j) (simp_all add: collector_defs)

lemma read_counter_performs:
  "read_counter k (fold perform calls c) =
    read_counter k (fold (\<lambda>(j, n). add_counter j n) (List.map_filter count_of calls) c)"
proof (induction calls arbitrary: c)
  case (Cons a calls)
  have swap: "fold (\<lambda>(j, n). add_counter j n) es (AddLatency d c) =
      AddLatency d (fold (\<lambda>(j, n). add_counter j n) es c)" for es d and c :: collector
    by (induction es arbitrary: c) (auto simp: add_counter_AddLatency)
  show ?case
    by (cases a) (simp_all add: Cons.IH swap List.map_filter_simps)
qed (simp add: List.map_filter_simps)

lemma latencyUS_performs:
  "latencyUS (fold perform calls c) = latencyUS c @ List.map_filter latency_of calls"
proof (induction calls arbitrary: c)
  case (Cons a calls)
  then show ?case by (cases a) (simp_all add: List.map_filter_simps)
qed (simp add: List.map_filter_simps)

lemma mset_map_filter: "mset xs = mset ys \<Longrightarrow> mset (List.map_filter f xs) = mset (List.map_filter f ys)"
  by (simp add: List.map_filter_def)

lemma percentiles_mset: "mset xs = mset ys \<Longrightarrow> percentiles xs = percentiles ys"
proof -
  assume eq: "mset xs = mset ys"
  then have "sort xs = sort ys"
    by (metis mset_sort properties_for_sort sorted_sort)
  moreover have "length xs = length ys"
    using eq by (rule mset_eq_length)
  ultimately show ?thesis
    by (simp add: percentiles_def)
qed

section \<open>The CSV file\<close>

text \<open>
  \<open>csv.Writer.Write\<close> with the default settings: a field is quoted when it is a lone
  \<open>\.\<close>, contains a comma, a quote or a line break, or starts with white space.
\<close>

definition csv_special :: "char list" where
  "csv_special = [CHR 0x0A, CHR 0x0D, CHR 0x22, CHR '','']"

definition csv_needs_quotes :: "string \<Rightarrow> bool" where
  "csv_needs_quotes f \<longleftrightarrow>
     f \<noteq> [] \<and>
     (f = [CHR 0x5C, CHR ''.''] \<or> (\<exists>c \<in> set f. c \<in> set csv_special)
      \<or> (\<exists>p \<in> set space_encodings. starts_with f p))"

definition csv_field :: "string \<Rightarrow> string" where
  "csv_field f =
     (if csv_needs_quotes f
      then CHR 0x22 # concat (map (\<lambda>c. if c = CHR 0x22 then [CHR 0x22, CHR 0x22] else [c]) f) @ [CHR 0x22]
      else f)"

fun csv_join :: "string list \<Rightarrow> string" where
  "csv_join [] = []"
| "csv_join [f] = csv_field f"
| "csv_join (f # fs) = csv_field f @ CHR '','' # csv_join fs"

definition csv_line :: "string list \<Rightarrow> string" where
  "csv_line fs = csv_join fs @ [CHR 0x0A]"

definition csv_head :: "string list" where
  "csv_head = [''timestamp'', ''mode'', ''transport'', ''target_pps'', ''achieved_pps'', ''tx'', ''rx'',
     ''drop'', ''drop_timeout'', ''drop_send_err'', ''drop_decode'', ''drop_mismatch'', ''drop_other'',
     ''p50_us'', ''p95_us'', ''p99_us'', ''channels'']"

text \<open>\<open>rfc3339\<close> is \<open>time.Time.Format(time.RFC3339Nano)\<close> in the machine's time zone.\<close>

definition csv_record :: "(int \<Rightarrow> string) \<Rightarrow> snapshot \<Rightarrow> string list" where
  "csv_record rfc3339 s =
     [rfc3339 (Timestamp s), Mode s, Transport s, format_int (TargetPPS s), format_int (AchievedPPS s),
      format_int (uint (Tx s)), format_int (uint (Rx s)), format_int (uint (Drop s)),
      format_int (uint (DropTimeout s)), format_int (uint (DropSendErr s)),
      format_int (uint (DropDecode s)), format_int (uint (DropMismatch s)),
      format_int (uint (DropOther s)), format_int (P50US s), format_int (P95US s),
      format_int (P99US s), format_int (Channels s)]"

text \<open>
  \<open>WriteCSV\<close> over the environment: \<open>create\<close> opens the file, \<open>emit\<close> is the buffered
  write of a line, which may have to flush the buffer and fail, and \<open>flush\<close> the deferred
  final flush, whose error the code does not look at. The result is the returned error and
  the file, if one was created.
\<close>

fun write_rows :: "(string \<Rightarrow> 'w \<Rightarrow> go_error option \<times> 'w) \<Rightarrow> (int \<Rightarrow> string) \<Rightarrow> snapshot list \<Rightarrow> 'w
    \<Rightarrow> go_error option \<times> 'w" where
  "write_rows emit rfc3339 [] w = (None, w)"
| "write_rows emit rfc3339 (s # rows) w =
     (case emit (csv_line (csv_record rfc3339 s)) w of
        (Some err, w) \<Rightarrow> (Some err, w)
      | (None, w) \<Rightarrow> write_rows emit rfc3339 rows w)"

definition WriteCSV :: "(string \<Rightarrow> go_error + 'w) \<Rightarrow> (string \<Rightarrow> 'w \<Rightarrow> go_error option \<times> 'w) \<Rightarrow> ('w \<Rightarrow> 'w)
    \<Rightarrow> (int \<Rightarrow> string) \<Rightarrow> string \<Rightarrow> snapshot list \<Rightarrow> go_error option \<times> 'w option" where
  "WriteCSV create emit flush rfc3339 path rows =
     (case create path of
        Inl err \<Rightarrow> (Some err, None)
      | Inr w \<Rightarrow>
          (case emit (csv_line csv_head) w of
             (Some err, w) \<Rightarrow> (Some err, Some (flush w))
           | (None, w) \<Rightarrow>
               (case write_rows emit rfc3339 rows w of (r, w) \<Rightarrow> (r, Some (flush w)))))"

text \<open>Reading an unquoted line back.\<close>

fun split_commas :: "string \<Rightarrow> string list" where
  "split_commas [] = [[]]"
| "split_commas (c # s) =
     (if c = CHR '','' then [] # split_commas s
      else (case split_commas s of f # fs \<Rightarrow> (c # f) # fs | [] \<Rightarrow> [[c]]))"

definition csv_plain :: "string \<Rightarrow> bool" where
  "csv_plain f \<longleftrightarrow> \<not> csv_needs_quotes f"

lemma csv_plain_no_comma: "csv_plain f \<Longrightarrow> CHR '','' \<notin> set f"
  by (cases f) (auto simp: csv_plain_def csv_needs_quotes_def csv_special_def)

lemma csv_field_plain: "csv_plain f \<Longrightarrow> csv_field f = f"
  by (simp add: csv_plain_def csv_field_def)

lemma split_commas_no_comma: "CHR '','' \<notin> set f \<Longrightarrow> split_commas f = [f]"
  by (induction f) auto

lemma split_commas_cons:
  "CHR '','' \<notin> set f \<Longrightarrow> split_commas (f @ CHR '','' # s) = f # split_commas s"
  by (induction f) auto

lemma split_commas_join:
  "fs \<noteq> [] \<Longrightarrow> \<forall>f \<in> set fs. csv_plain f \<Longrightarrow> split_commas (csv_join fs) = fs"
proof (induction fs rule: csv_join.induct)
  case (2 f)
  then show ?case
    by (simp add: split_commas_no_comma csv_plain_no_comma csv_field_plain)
next
  case (3 f g fs)
  then show ?case
    by (simp add: split_commas_cons csv_plain_no_comma csv_field_plain)
qed simp

lemma digit_char_code: "d < 10 \<Longrightarrow> (of_char (digit_char d) :: nat) = 48 + d"
  by simp

lemma csv_special_codes: "c \<in> set csv_special \<Longrightarrow> (of_char c :: nat) < 45"
  by (auto simp: csv_special_def)

lemma space_codes:
  "p \<in> set space_encodings \<Longrightarrow> p \<noteq> [] \<and> ((of_char (hd p) :: nat) \<le> 32 \<or> 128 \<le> (of_char (hd p) :: nat))"
  by (auto simp: space_encodings_def)

lemma format_int_codes:
  "c \<in> set (format_int i) \<Longrightarrow> 45 \<le> (of_char c :: nat) \<and> (of_char c :: nat) < 58"
  by (auto simp: format_int_def dest!: format_nat_digits split: if_splits)

lemma csv_plain_format_int: "csv_plain (format_int i)"
proof -
  have "format_int i \<noteq> [CHR 0x5C, CHR ''.'']"
    using format_int_codes [of "CHR 0x5C" i] by auto
  moreover have "c \<notin> set csv_special" if "c \<in> set (format_int i)" for c
    using format_int_codes [OF that] csv_special_codes [of c] by auto
  moreover have "\<not> starts_with (format_int i) p" if "p \<in> set space_encodings" "format_int i \<noteq> []" for p
    using format_int_codes [of "hd p" i] space_codes [OF that(1)] that(2)
      starts_with_hd [of "format_int i" p] list.set_sel(1) [of "format_int i"] by fastforce
  ultimately show ?thesis
    by (auto simp: csv_plain_def csv_needs_quotes_def)
qed

lemma write_rows_append:
  assumes "\<And>l w. emit l w = (None, put w l)"
  shows "write_rows emit rfc3339 rows w = (None, fold (\<lambda>l w. put w l) (map (csv_line \<circ> csv_record rfc3339) rows) w)"
  by (induction rows arbitrary: w) (simp_all add: assms)

section \<open>Properties\<close>

text \<open>
  \<open>q\<close> is a \<open>p\<close>th percentile of \<open>vals\<close> by rank: at least \<open>\<lfloor>(n-1)p/100\<rfloor> + 1\<close> values are at
  most \<open>q\<close> and at least \<open>n - \<lfloor>(n-1)p/100\<rfloor>\<close> values are at least \<open>q\<close>.
\<close>

definition is_percentile :: "nat \<Rightarrow> int list \<Rightarrow> int \<Rightarrow> bool" where
  "is_percentile p vals q \<longleftrightarrow>
     (let k = (length vals - 1) * p div 100
      in q \<in> set vals \<and> k + 1 \<le> length (filter (\<lambda>v. v \<le> q) vals)
         \<and> length vals - k \<le> length (filter (\<lambda>v. q \<le> v) vals))"

lemma percentile_index_less:
  assumes "vals \<noteq> []" and "p \<le> 100"
  shows "(length vals - 1) * p div 100 < length vals"
proof -
  have "(length vals - 1) * p div 100 \<le> (length vals - 1) * 100 div 100"
    using assms(2) by (intro div_le_mono mult_le_mono2)
  also have "\<dots> < length vals"
    using assms(1) by simp
  finally show ?thesis .
qed

lemma is_percentile_nth:
  assumes "vals \<noteq> []" and "p \<le> 100"
  shows "is_percentile p vals (sort vals ! ((length vals - 1) * p div 100))"
proof -
  note lt = percentile_index_less [OF assms]
  have "sort vals ! ((length vals - 1) * p div 100) \<in> set vals"
    using nth_mem [of "(length vals - 1) * p div 100" "sort vals"] lt by simp
  with rank_below [OF lt] rank_above [OF lt] show ?thesis
    by (simp only: is_percentile_def Let_def)
qed

lemma percentile_nth_mono:
  assumes "vals \<noteq> []" and "p \<le> r" and "r \<le> 100"
  shows "sort vals ! ((length vals - 1) * p div 100) \<le> sort vals ! ((length vals - 1) * r div 100)"
  using percentile_index_less [OF assms(1,3)] assms(2)
  by (intro sorted_nth_mono) (auto intro: div_le_mono)

text \<open>C7: The percentiles of a snapshot are recorded values of the exact ranks: although the
  code computes the index in floating point, the 50th, 95th and 99th percentile are
  percentiles by rank of the recorded values (up to \<open>2^40\<close> of them), and they are in order.\<close>

theorem percentiles_correct:
  assumes "vals \<noteq> []" and "length vals \<le> 2 ^ 40"
  shows "\<exists>p50 p95 p99. percentiles vals = (p50, p95, p99)
    \<and> is_percentile 50 vals p50 \<and> is_percentile 95 vals p95 \<and> is_percentile 99 vals p99
    \<and> p50 \<le> p95 \<and> p95 \<le> p99"
  unfolding percentiles_exact [OF assms]
  using is_percentile_nth [OF assms(1), of 50] is_percentile_nth [OF assms(1), of 95]
    is_percentile_nth [OF assms(1), of 99] percentile_nth_mono [OF assms(1), of 50 95]
    percentile_nth_mono [OF assms(1), of 95 99]
  by (intro exI conjI) (rule refl, assumption | simp only: numeral_le_iff semiring_norm)+

theorem percentiles_correct_witness:
  "\<exists>p50 p95 p99. percentiles [300, 100, 200] = (p50, p95, p99)
    \<and> is_percentile 50 [300, 100, 200] p50 \<and> is_percentile 95 [300, 100, 200] p95
    \<and> is_percentile 99 [300, 100, 200] p99 \<and> p50 \<le> p95 \<and> p95 \<le> p99"
  by (rule percentiles_correct) simp_all

text \<open>C38: The achieved rate is right for every duration that the clock can return and up to \<open>2^53\<close>
  responses: it is the integer part of a number that differs from the exact quotient of
  responses and seconds by less than one part in \<open>2^51\<close>, so below \<open>2^51\<close> packets per second it
  is at most one off the exact integer quotient, and over a whole number of seconds it is that
  quotient. Without elapsed time it is zero.\<close>

theorem achieved_pps_exact:
  assumes "in_int64 since" and "uint (rx c) < 2 ^ 53"
  shows "(since \<le> 0 \<longrightarrow> AchievedPPS (Collector_Snapshot now m t p ch since c) = 0)
    \<and> (0 < since \<longrightarrow>
        (\<exists>v. \<bar>v - exact_rate (rx c) since\<bar> \<le> exact_rate (rx c) since / 2 ^ 51
          \<and> AchievedPPS (Collector_Snapshot now m t p ch since c) = \<lfloor>v\<rfloor>))
    \<and> (0 < since \<and> exact_rate (rx c) since < 2 ^ 51 \<longrightarrow>
        \<bar>AchievedPPS (Collector_Snapshot now m t p ch since c) - uint (rx c) * 1000000000 div since\<bar> \<le> 1)
    \<and> (0 < since \<and> 1000000000 dvd since \<longrightarrow>
        AchievedPPS (Collector_Snapshot now m t p ch since c) = uint (rx c) div (since div 1000000000))"
proof (intro conjI impI)
  show "since \<le> 0 \<Longrightarrow> AchievedPPS (Collector_Snapshot now m t p ch since c) = 0"
    by (simp add: achieved_pps_def)
  show near: "\<exists>v. \<bar>v - exact_rate (rx c) since\<bar> \<le> exact_rate (rx c) since / 2 ^ 51
      \<and> AchievedPPS (Collector_Snapshot now m t p ch since c) = \<lfloor>v\<rfloor>" if "0 < since"
    using achieved_pps_near [OF that assms] by simp
  show "\<bar>AchievedPPS (Collector_Snapshot now m t p ch since c) - uint (rx c) * 1000000000 div since\<bar> \<le> 1"
    if "0 < since \<and> exact_rate (rx c) since < 2 ^ 51"
  proof -
    from near that obtain v where v: "\<bar>v - exact_rate (rx c) since\<bar> \<le> exact_rate (rx c) since / 2 ^ 51"
      "AchievedPPS (Collector_Snapshot now m t p ch since c) = \<lfloor>v\<rfloor>" by blast
    have "exact_rate (rx c) since / 2 ^ 51 < 1"
      using that by (auto simp: pos_divide_less_eq)
    with v(1) have "\<bar>\<lfloor>v\<rfloor> - \<lfloor>exact_rate (rx c) since\<rfloor>\<bar> \<le> 1"
      by (intro floor_near) linarith
    moreover have "\<lfloor>exact_rate (rx c) since\<rfloor> = uint (rx c) * 1000000000 div since"
      by (simp only: exact_rate_def floor_divide_of_int_eq)
    ultimately show ?thesis using v(2) by simp
  qed
  show "AchievedPPS (Collector_Snapshot now m t p ch since c) = uint (rx c) div (since div 1000000000)"
    if whole: "0 < since \<and> 1000000000 dvd since"
  proof -
    from whole obtain s where s: "since = s * 1000000000" by (auto simp: dvd_def mult.commute)
    with whole assms(1) have "0 < s" "s \<le> 2 ^ 53"
      by (simp_all add: in_int64_def max_int64_def)
    from achieved_pps_whole [OF this assms(2)] show ?thesis by (simp add: s)
  qed
qed

theorem achieved_pps_exact_witness:
  "\<bar>AchievedPPS (Collector_Snapshot 0 ''latency'' ''sctp'' 1000 1 1500000000 (new_collector\<lparr>rx := 1000\<rparr>)) - 666\<bar> \<le> 1
    \<and> AchievedPPS (Collector_Snapshot 0 ''latency'' ''sctp'' 1000 1 3000000000 (new_collector\<lparr>rx := 1000\<rparr>)) = 333"
  using achieved_pps_exact [of 1500000000 "new_collector\<lparr>rx := 1000\<rparr>" 0 "''latency''" "''sctp''" 1000 1]
    achieved_pps_exact [of 3000000000 "new_collector\<lparr>rx := 1000\<rparr>" 0 "''latency''" "''sctp''" 1000 1]
  by (simp add: in_int64_def min_int64_def max_int64_def exact_rate_def)

text \<open>C8: A snapshot does not depend on the scheduling of the workers: whatever the order in which
  the same calls of the collector's methods were made, it shows the same counters, drops,
  rate and percentiles.\<close>

theorem snapshot_schedule_independent:
  assumes "mset calls = mset calls'"
  shows "Collector_Snapshot now m t p ch since (fold perform calls c) =
    Collector_Snapshot now m t p ch since (fold perform calls' c)"
proof -
  have counts: "read_counter k (fold perform calls c) = read_counter k (fold perform calls' c)" for k
    unfolding read_counter_performs
    by (rule counters.bumps_order_irrelevant) (rule mset_map_filter [OF assms])
  have lat: "percentiles (latencyUS (fold perform calls c)) = percentiles (latencyUS (fold perform calls' c))"
    by (rule percentiles_mset) (simp add: latencyUS_performs mset_map_filter [OF assms])
  show ?thesis
    using counts [of CTx] counts [of CRx] counts [of CDropTimeout] counts [of CDropSendErr]
      counts [of CDropDecode] counts [of CDropMismatch] counts [of CDropOther] lat
    by (simp add: Collector_Snapshot_def)
qed

theorem snapshot_schedule_independent_witness:
  "Collector_Snapshot 0 ''latency'' ''quic'' 10 2 1000000000
      (fold perform [Count CTx 1, Count CRx 1, Latency 5000, Count CTx 1, Count CDropTimeout 1] new_collector) =
    Collector_Snapshot 0 ''latency'' ''quic'' 10 2 1000000000
      (fold perform [Count CTx 1, Count CTx 1, Count CDropTimeout 1, Count CRx 1, Latency 5000] new_collector)"
  by (rule snapshot_schedule_independent) simp

text \<open>
  What the code relies on of \<open>csv.Writer\<close> on a file that takes every byte: the state is the
  file and the buffer, a written line goes to the end of the two together, the part that
  overflows the buffer to the file at any time, and \<open>Flush\<close> moves the whole buffer to the file.
\<close>

type_synonym buffered_file = "string \<times> string"

definition buffers :: "(string \<Rightarrow> buffered_file \<Rightarrow> go_error option \<times> buffered_file) \<Rightarrow>
    (buffered_file \<Rightarrow> buffered_file) \<Rightarrow> bool" where
  "buffers emit flush \<longleftrightarrow>
     (\<forall>l f b. \<exists>f' b'. emit l (f, b) = (None, f', b') \<and> f' @ b' = f @ b @ l)
     \<and> (\<forall>f b. flush (f, b) = (f @ b, []))"

lemma write_rows_buffered:
  assumes "buffers emit flush"
  shows "\<exists>f' b'. write_rows emit rfc3339 rows (f, b) = (None, f', b')
    \<and> f' @ b' = f @ b @ concat (map (csv_line \<circ> csv_record rfc3339) rows)"
proof (induction rows arbitrary: f b)
  case (Cons s rows)
  from assms obtain f1 b1 where e: "emit (csv_line (csv_record rfc3339 s)) (f, b) = (None, f1, b1)"
    "f1 @ b1 = f @ b @ csv_line (csv_record rfc3339 s)"
    unfolding buffers_def by blast
  from Cons.IH [of f1 b1] e show ?case
    by (auto simp: append_assoc [symmetric] simp del: append_assoc)
qed simp

text \<open>C39: When the file can be written, \<open>WriteCSV\<close> returns no error and, however much the writer
  holds back in its buffer meanwhile, leaves the header line and one line for each snapshot in
  order in the file and nothing in the buffer. Each line, split at its commas and read under the
  names of the header, gives each of the 17 columns its value of the snapshot, as long as the
  time stamp, mode and transport need no quoting, which the names the program uses do not.\<close>

theorem WriteCSV_contents:
  assumes "buffers emit flush" and "create path = Inr ([], [])" and "\<And>t. csv_plain (rfc3339 t)"
    and "\<forall>s \<in> set rows. csv_plain (Mode s) \<and> csv_plain (Transport s)"
  shows "WriteCSV create emit flush rfc3339 path rows =
      (None, Some (concat (csv_line csv_head # map (csv_line \<circ> csv_record rfc3339) rows), []))
    \<and> (\<forall>s \<in> set rows.
        map_of (zip (split_commas (butlast (csv_line csv_head))) (split_commas (butlast (csv_line (csv_record rfc3339 s))))) =
          [''timestamp'' \<mapsto> rfc3339 (Timestamp s), ''mode'' \<mapsto> Mode s, ''transport'' \<mapsto> Transport s,
           ''target_pps'' \<mapsto> format_int (TargetPPS s), ''achieved_pps'' \<mapsto> format_int (AchievedPPS s),
           ''tx'' \<mapsto> format_int (uint (Tx s)), ''rx'' \<mapsto> format_int (uint (Rx s)),
           ''drop'' \<mapsto> format_int (uint (Drop s)), ''drop_timeout'' \<mapsto> format_int (uint (DropTimeout s)),
           ''drop_send_err'' \<mapsto> format_int (uint (DropSendErr s)), ''drop_decode'' \<mapsto> format_int (uint (DropDecode s)),
           ''drop_mismatch'' \<mapsto> format_int (uint (DropMismatch s)), ''drop_other'' \<mapsto> format_int (uint (DropOther s)),
           ''p50_us'' \<mapsto> format_int (P50US s), ''p95_us'' \<mapsto> format_int (P95US s),
           ''p99_us'' \<mapsto> format_int (P99US s), ''channels'' \<mapsto> format_int (Channels s)])"
proof (intro conjI ballI)
  from assms(1) obtain f1 b1 where head: "emit (csv_line csv_head) ([], []) = (None, f1, b1)" "f1 @ b1 = csv_line csv_head"
    unfolding buffers_def by (metis append_Nil)
  from write_rows_buffered [OF assms(1), of rfc3339 rows f1 b1] obtain f2 b2
    where body: "write_rows emit rfc3339 rows (f1, b1) = (None, f2, b2)"
      "f2 @ b2 = f1 @ b1 @ concat (map (csv_line \<circ> csv_record rfc3339) rows)" by blast
  have "flush (f2, b2) = (f2 @ b2, [])"
    using assms(1) by (simp add: buffers_def)
  then show "WriteCSV create emit flush rfc3339 path rows =
      (None, Some (concat (csv_line csv_head # map (csv_line \<circ> csv_record rfc3339) rows), []))"
    using head body by (simp add: WriteCSV_def assms(2))
next
  fix s
  assume s: "s \<in> set rows"
  have "\<forall>f \<in> set csv_head. csv_plain f"
    by (simp add: csv_head_def csv_plain_def csv_needs_quotes_def csv_special_def space_encodings_def starts_with_def)
  moreover have "\<forall>f \<in> set (csv_record rfc3339 s). csv_plain f"
    using assms(3,4) s by (simp add: csv_record_def csv_plain_format_int)
  ultimately have split: "split_commas (butlast (csv_line csv_head)) = csv_head"
    "split_commas (butlast (csv_line (csv_record rfc3339 s))) = csv_record rfc3339 s"
    by (simp_all only: csv_line_def butlast_snoc) (intro split_commas_join; simp add: csv_head_def csv_record_def)+
  show "map_of (zip (split_commas (butlast (csv_line csv_head))) (split_commas (butlast (csv_line (csv_record rfc3339 s))))) =
      [''timestamp'' \<mapsto> rfc3339 (Timestamp s), ''mode'' \<mapsto> Mode s, ''transport'' \<mapsto> Transport s,
       ''target_pps'' \<mapsto> format_int (TargetPPS s), ''achieved_pps'' \<mapsto> format_int (AchievedPPS s),
       ''tx'' \<mapsto> format_int (uint (Tx s)), ''rx'' \<mapsto> format_int (uint (Rx s)),
       ''drop'' \<mapsto> format_int (uint (Drop s)), ''drop_timeout'' \<mapsto> format_int (uint (DropTimeout s)),
       ''drop_send_err'' \<mapsto> format_int (uint (DropSendErr s)), ''drop_decode'' \<mapsto> format_int (uint (DropDecode s)),
       ''drop_mismatch'' \<mapsto> format_int (uint (DropMismatch s)), ''drop_other'' \<mapsto> format_int (uint (DropOther s)),
       ''p50_us'' \<mapsto> format_int (P50US s), ''p95_us'' \<mapsto> format_int (P95US s),
       ''p99_us'' \<mapsto> format_int (P99US s), ''channels'' \<mapsto> format_int (Channels s)]"
    unfolding split by (rule ext) (simp add: csv_head_def csv_record_def)
qed

text \<open>A buffer of 4096 bytes that spills when a line does not fit.\<close>

definition spill :: "string \<Rightarrow> buffered_file \<Rightarrow> go_error option \<times> buffered_file" where
  "spill l fb = (case fb of (f, b) \<Rightarrow> if length (b @ l) \<le> 4096 then (None, f, b @ l) else (None, f @ b, l))"

theorem WriteCSV_contents_witness:
  "\<exists>file line. WriteCSV (\<lambda>_. Inr ([], [])) spill (\<lambda>(f, b). (f @ b, [])) format_int ''out.csv''
      [Collector_Snapshot 7 ''latency'' ''sctp'' 10 1 1000000000 (AddTx 5 new_collector)] = (None, Some (file, []))
    \<and> file = csv_line csv_head @ line
    \<and> map_of (zip csv_head (split_commas (butlast line))) ''tx'' = Some ''5''"
proof -
  let ?s = "Collector_Snapshot 7 ''latency'' ''sctp'' 10 1 1000000000 (AddTx 5 new_collector)"
  let ?line = "csv_line (csv_record format_int ?s)"
  have names: "Mode ?s = ''latency''" "Transport ?s = ''sctp''"
    by (simp_all add: Collector_Snapshot_def split: prod.split)
  have "csv_plain ''latency'' \<and> csv_plain ''sctp''"
    by (simp add: csv_plain_def csv_needs_quotes_def csv_special_def space_encodings_def starts_with_def)
  then have plain: "\<forall>s \<in> set [?s]. csv_plain (Mode s) \<and> csv_plain (Transport s)"
    by (simp add: names)
  have buf: "buffers spill (\<lambda>(f, b). (f @ b, []))"
    by (auto simp: buffers_def spill_def)
  note run = WriteCSV_contents [OF buf, of "\<lambda>_. Inr ([], [])" "''out.csv''", OF refl csv_plain_format_int plain]
  have "format_int 5 = ''5''" by code_simp
  then have five: "format_int (uint (Tx ?s)) = ''5''"
    by (simp add: AddTx_def new_collector_def)
  have "split_commas (butlast (csv_line csv_head)) = csv_head"
    by (simp only: csv_line_def butlast_snoc) (intro split_commas_join, simp_all add: csv_head_def csv_plain_def
      csv_needs_quotes_def csv_special_def space_encodings_def starts_with_def)
  with run five show ?thesis
    by (intro exI [of _ "csv_line csv_head @ ?line"] exI [of _ ?line]) simp
qed

end
