(* ===== verification/Stream_IO.thy ===== *)
theory Stream_IO
  imports Wire
begin

text \<open>
  Byte streams as the transports see them. A reader (\<open>io.Reader\<close>) and a writer
  (\<open>io.Writer\<close>) are state-passing functions: \<open>rd n s\<close> is the outcome of \<open>Read\<close> into a
  buffer of \<open>n\<close> bytes, \<open>wr b s\<close> of \<open>Write(b)\<close>; \<open>None\<close> means that the call has not
  returned. \<open>read_full\<close> is \<open>io.ReadFull\<close>. The locales \<open>byte_source\<close> and \<open>byte_sink\<close>
  state the contract of a stream, and the lemmas proved inside them carry the framing
  proofs of the kernel and QUIC transports.
\<close>

type_synonym 's reader = "nat \<Rightarrow> 's \<Rightarrow> ((bytes \<times> go_error option) \<times> 's) option"
type_synonym 's writer = "bytes \<Rightarrow> 's \<Rightarrow> ((nat \<times> go_error option) \<times> 's) option"

section \<open>Reading a whole buffer\<close>

text \<open>The loop of \<open>io.ReadAtLeast\<close>; it may run forever on a reader that returns nothing.\<close>

partial_function (option) read_loop ::
  "'s reader \<Rightarrow> nat \<Rightarrow> bytes \<Rightarrow> 's \<Rightarrow> ((bytes \<times> go_error option) \<times> 's) option" where
  "read_loop rd want got s =
     (if want \<le> length got then Some ((got, None), s)
      else case rd (want - length got) s of
          None \<Rightarrow> None
        | Some r \<Rightarrow>
            (case snd (fst r) of
               None \<Rightarrow> read_loop rd want (got @ fst (fst r)) (snd r)
             | Some err \<Rightarrow> Some ((got @ fst (fst r), Some err), snd r)))"

definition read_full :: "'s reader \<Rightarrow> 's reader" where
  "read_full rd want s =
     (case read_loop rd want [] s of
        None \<Rightarrow> None
      | Some ((got, err), s) \<Rightarrow>
          Some ((got,
            if want \<le> length got then None
            else if got \<noteq> [] \<and> err = Some ErrEOF then Some ErrUnexpectedEOF
            else err), s))"

text \<open>
  The contract of a byte source. \<open>pend s\<close> are the bytes on their way to the reader in
  state \<open>s\<close>: a read takes a front part of them, at most as long as the buffer, and loses
  nothing. \<open>ready k s\<close> says that the next \<open>k\<close> bytes will be delivered without an error,
  in pieces of any size.
\<close>

locale byte_source =
  fixes rd :: "'s reader" and pend :: "'s \<Rightarrow> bytes" and ready :: "nat \<Rightarrow> 's \<Rightarrow> bool"
  assumes read_front: "rd n s = Some ((bs, e), s') \<Longrightarrow> length bs \<le> n \<and> pend s = bs @ pend s'"
    and read_ready: "ready k s \<Longrightarrow> 0 < k \<Longrightarrow> 0 < n \<Longrightarrow>
      \<exists>bs s'. rd n s = Some ((bs, None), s') \<and> bs \<noteq> [] \<and> ready (k - length bs) s'"
begin

lemma read_loop_front:
  assumes "read_loop rd want got s = Some ((all, e), s')" and "length got \<le> want"
  shows "\<exists>bs. all = got @ bs \<and> pend s = bs @ pend s' \<and> length all \<le> want
    \<and> (e = None \<longrightarrow> length all = want)"
proof -
  let ?P = "\<lambda>rd' want got s r. rd' = rd \<longrightarrow> length got \<le> want \<longrightarrow>
    (\<exists>bs. fst (fst r) = got @ bs \<and> pend s = bs @ pend (snd r) \<and> length (fst (fst r)) \<le> want
      \<and> (snd (fst r) = None \<longrightarrow> length (fst (fst r)) = want))"
  have "?P rd want got s ((all, e), s')"
  proof (rule read_loop.raw_induct [where P = ?P, OF _ assms(1)], intro impI)
    fix f rd' want got s r
    assume IH: "\<And>rd' want got s r. f rd' want got s = Some r \<Longrightarrow> ?P rd' want got s r"
      and eq: "(if want \<le> length got then Some ((got, None), s)
        else case rd' (want - length got) s of None \<Rightarrow> None
          | Some r \<Rightarrow> (case snd (fst r) of None \<Rightarrow> f rd' want (got @ fst (fst r)) (snd r)
              | Some err \<Rightarrow> Some ((got @ fst (fst r), Some err), snd r))) = Some r"
      and rd': "rd' = rd" and len: "length got \<le> want"
    show "\<exists>bs. fst (fst r) = got @ bs \<and> pend s = bs @ pend (snd r) \<and> length (fst (fst r)) \<le> want
      \<and> (snd (fst r) = None \<longrightarrow> length (fst (fst r)) = want)"
    proof (cases "want \<le> length got")
      case True
      with eq len show ?thesis by auto
    next
      case False
      with eq obtain bs e' s1 where rd1: "rd (want - length got) s = Some ((bs, e'), s1)"
        by (auto simp: rd' split: option.splits)
      note front = read_front [OF rd1]
      then have len1: "length (got @ bs) \<le> want"
        using len by (simp add: le_diff_conv2 add.commute)
      show ?thesis
      proof (cases e')
        case None
        with eq False rd1 have "f rd want (got @ bs) s1 = Some r"
          by (simp add: rd')
        from IH [OF this] len1 obtain bs2 where "fst (fst r) = (got @ bs) @ bs2"
          "pend s1 = bs2 @ pend (snd r)" "length (fst (fst r)) \<le> want"
          "snd (fst r) = None \<longrightarrow> length (fst (fst r)) = want" by auto
        with front show ?thesis by (intro exI [of _ "bs @ bs2"]) simp
      next
        case (Some err)
        with eq False rd1 front len1 show ?thesis by (auto simp: rd')
      qed
    qed
  qed
  with assms(2) show ?thesis by simp
qed

text \<open>
  Whatever \<open>ReadFull\<close> returns, nothing is lost or reordered: the bytes it has taken are the
  front of the stream, and it reports success exactly when the buffer is full.
\<close>

lemma read_full_front:
  assumes "read_full rd n s = Some ((bs, e), s')"
  shows "pend s = bs @ pend s' \<and> length bs \<le> n \<and> (e = None \<longleftrightarrow> length bs = n)"
proof -
  from assms obtain e0 where loop: "read_loop rd n [] s = Some ((bs, e0), s')"
    and e: "e = (if n \<le> length bs then None
      else if bs \<noteq> [] \<and> e0 = Some ErrEOF then Some ErrUnexpectedEOF else e0)"
    by (auto simp: read_full_def split: option.splits)
  from read_loop_front [OF loop] have "pend s = bs @ pend s'" "length bs \<le> n" "e0 = None \<longrightarrow> length bs = n"
    by auto
  then show ?thesis
    by (auto simp: e)
qed

lemma read_loop_ready:
  "ready k s \<Longrightarrow> length got \<le> want \<Longrightarrow> want - length got \<le> k \<Longrightarrow>
    \<exists>all s'. read_loop rd want got s = Some ((all, None), s') \<and> ready (k - (want - length got)) s'"
proof (induction "want - length got" arbitrary: got s k rule: less_induct)
  case less
  show ?case
  proof (cases "want \<le> length got")
    case True
    with less.prems show ?thesis by (subst read_loop.simps) simp
  next
    case False
    then obtain bs s1 where rd1: "rd (want - length got) s = Some ((bs, None), s1)" "bs \<noteq> []"
      and ready1: "ready (k - length bs) s1"
      using read_ready [of k s "want - length got"] less.prems by auto
    have len: "length bs \<le> want - length got"
      using read_front [OF rd1(1)] by simp
    have "\<exists>all s'. read_loop rd want (got @ bs) s1 = Some ((all, None), s')
        \<and> ready (k - length bs - (want - length (got @ bs))) s'"
      using False rd1(2) len less.prems
      by (intro less.hyps [OF _ ready1]) (auto simp: less_diff_conv)
    moreover have "k - length bs - (want - length (got @ bs)) = k - (want - length got)"
      using len less.prems(2,3) by simp
    ultimately show ?thesis
      using False rd1(1) by (subst read_loop.simps) simp
  qed
qed

lemma read_full_ready:
  assumes "ready k s" and "n \<le> k"
  shows "\<exists>s'. read_full rd n s = Some ((take n (pend s), None), s') \<and> pend s' = drop n (pend s)
    \<and> n \<le> length (pend s) \<and> ready (k - n) s'"
proof -
  obtain all s' where loop: "read_loop rd n [] s = Some ((all, None), s')" and ready': "ready (k - n) s'"
    using read_loop_ready [OF assms(1), of "[]" n] assms(2) by auto
  from read_loop_front [OF loop] have "pend s = all @ pend s'" "length all = n"
    by auto
  with loop ready' show ?thesis
    by (auto simp: read_full_def)
qed

end

section \<open>Writing\<close>

text \<open>
  The contract of a byte sink. \<open>sent s\<close> is everything written so far: a write appends a
  front part of its argument and says how long it is. \<open>wready k s\<close>: the sink takes \<open>k\<close>
  more bytes without an error, in pieces of any size.
\<close>

locale byte_sink =
  fixes wr :: "'s writer" and sent :: "'s \<Rightarrow> bytes" and wready :: "nat \<Rightarrow> 's \<Rightarrow> bool"
  assumes write_front: "wr b s = Some ((n, e), s') \<Longrightarrow> n \<le> length b \<and> sent s' = sent s @ take n b"
    and write_ready: "wready k s \<Longrightarrow> 0 < k \<Longrightarrow> b \<noteq> [] \<Longrightarrow>
      \<exists>n s'. wr b s = Some ((n, None), s') \<and> 0 < n \<and> wready (k - n) s'"

text \<open>
  The loops that write a whole buffer. \<open>write_all\<close> is \<open>writeAll\<close> of the QUIC backend;
  it may run forever on a writer that accepts nothing and reports no error.
\<close>

partial_function (option) write_all_loop ::
  "'s writer \<Rightarrow> bytes \<Rightarrow> nat \<Rightarrow> 's \<Rightarrow> ((nat \<times> go_error option) \<times> 's) option" where
  "write_all_loop wr buf written s =
     (if written < length buf
      then case wr (drop written buf) s of
          None \<Rightarrow> None
        | Some r \<Rightarrow>
            (case snd (fst r) of
               Some err \<Rightarrow> Some ((written + fst (fst r), Some err), snd r)
             | None \<Rightarrow> write_all_loop wr buf (written + fst (fst r)) (snd r))
      else Some ((written, None), s))"

definition write_all :: "'s writer \<Rightarrow> 's writer" where
  "write_all wr buf s = write_all_loop wr buf 0 s"

context byte_sink
begin

lemma write_all_loop_front:
  assumes "write_all_loop wr buf written s = Some ((n, e), s')" and "written \<le> length buf"
  shows "written \<le> n \<and> n \<le> length buf \<and> sent s' = sent s @ take (n - written) (drop written buf)
    \<and> (e = None \<longrightarrow> n = length buf)"
proof -
  let ?P = "\<lambda>wr' buf written s r. wr' = wr \<longrightarrow> written \<le> length buf \<longrightarrow>
    (written \<le> fst (fst r) \<and> fst (fst r) \<le> length buf
      \<and> sent (snd r) = sent s @ take (fst (fst r) - written) (drop written buf)
      \<and> (snd (fst r) = None \<longrightarrow> fst (fst r) = length buf))"
  have "?P wr buf written s ((n, e), s')"
  proof (rule write_all_loop.raw_induct [where P = ?P, OF _ assms(1)], intro impI)
    fix f wr' buf written s r
    assume IH: "\<And>wr' buf written s r. f wr' buf written s = Some r \<Longrightarrow> ?P wr' buf written s r"
      and eq: "(if written < length buf
        then case wr' (drop written buf) s of None \<Rightarrow> None
          | Some r \<Rightarrow> (case snd (fst r) of Some err \<Rightarrow> Some ((written + fst (fst r), Some err), snd r)
              | None \<Rightarrow> f wr' buf (written + fst (fst r)) (snd r))
        else Some ((written, None), s)) = Some r"
      and wr': "wr' = wr" and len: "written \<le> length buf"
    show "written \<le> fst (fst r) \<and> fst (fst r) \<le> length buf
      \<and> sent (snd r) = sent s @ take (fst (fst r) - written) (drop written buf)
      \<and> (snd (fst r) = None \<longrightarrow> fst (fst r) = length buf)"
    proof (cases "written < length buf")
      case False
      with eq len show ?thesis by auto
    next
      case True
      with eq obtain k e' s1 where w1: "wr (drop written buf) s = Some ((k, e'), s1)"
        by (auto simp: wr' split: option.splits)
      note front = write_front [OF w1]
      then have len1: "written + k \<le> length buf"
        using len by (simp add: le_diff_conv2 add.commute)
      show ?thesis
      proof (cases e')
        case None
        with eq True w1 have "f wr buf (written + k) s1 = Some r"
          by (simp add: wr')
        from IH [OF this] len1 have r: "written + k \<le> fst (fst r)" "fst (fst r) \<le> length buf"
          "sent (snd r) = sent s1 @ take (fst (fst r) - (written + k)) (drop (written + k) buf)"
          "snd (fst r) = None \<longrightarrow> fst (fst r) = length buf" by auto
        have "fst (fst r) - written = k + (fst (fst r) - (written + k))"
          using r(1) by simp
        then have "take (fst (fst r) - written) (drop written buf) =
            take k (drop written buf) @ take (fst (fst r) - (written + k)) (drop (written + k) buf)"
          by (simp only: take_add drop_drop add.commute)
        with r front show ?thesis by simp
      next
        case (Some err)
        with eq True w1 front len1 show ?thesis by (auto simp: wr')
      qed
    qed
  qed
  with assms(2) show ?thesis by simp
qed

lemma write_all_front:
  assumes "write_all wr buf s = Some ((n, e), s')"
  shows "n \<le> length buf \<and> sent s' = sent s @ take n buf \<and> (e = None \<longrightarrow> n = length buf)"
  using write_all_loop_front [OF assms [unfolded write_all_def]] by simp

lemma write_all_loop_ready:
  "wready k s \<Longrightarrow> written \<le> length buf \<Longrightarrow> length buf - written \<le> k \<Longrightarrow>
    \<exists>n s'. write_all_loop wr buf written s = Some ((n, None), s') \<and> wready (k - (length buf - written)) s'"
proof (induction "length buf - written" arbitrary: written s k rule: less_induct)
  case less
  show ?case
  proof (cases "written < length buf")
    case False
    with less.prems show ?thesis by (subst write_all_loop.simps) simp
  next
    case True
    then have "0 < k" using less.prems(3) by simp
    then obtain m s1 where w1: "wr (drop written buf) s = Some ((m, None), s1)" "0 < m"
      and ready1: "wready (k - m) s1"
      using write_ready [of k s "drop written buf"] True less.prems by auto
    have m: "written + m \<le> length buf"
      using write_front [OF w1(1)] True by (simp add: le_diff_conv2 add.commute)
    have "\<exists>n s'. write_all_loop wr buf (written + m) s1 = Some ((n, None), s')
        \<and> wready (k - m - (length buf - (written + m))) s'"
      using True w1(2) m less.prems(3) by (intro less.hyps [OF _ ready1]) simp_all
    moreover have "k - m - (length buf - (written + m)) = k - (length buf - written)"
      using m by simp
    ultimately show ?thesis
      using True w1(1) by (subst write_all_loop.simps) simp
  qed
qed

lemma write_all_ready:
  assumes "wready k s" and "length buf \<le> k"
  shows "\<exists>s'. write_all wr buf s = Some ((length buf, None), s') \<and> sent s' = sent s @ buf
    \<and> wready (k - length buf) s'"
proof -
  obtain n s' where w: "write_all wr buf s = Some ((n, None), s')" and "wready (k - length buf) s'"
    using write_all_loop_ready [OF assms(1), of 0 buf] assms(2) by (auto simp: write_all_def)
  moreover have "n = length buf" "sent s' = sent s @ take n buf"
    using write_all_front [OF w] by simp_all
  ultimately show ?thesis by simp
qed

end

section \<open>What the loops leave alone\<close>

text \<open>
  A reflexive and transitive relation between the states before and after each call of the
  reader or writer also relates the states before and after the whole loop.
\<close>

lemma read_full_rel:
  assumes step: "\<And>n s r s'. rd n s = Some (r, s') \<Longrightarrow> R s s'"
    and rt: "\<And>s. R s s" "\<And>s t u. R s t \<Longrightarrow> R t u \<Longrightarrow> R s u"
    and read: "read_full rd n s = Some (r, s')"
  shows "R s s'"
proof -
  let ?P = "\<lambda>rd' want got s r. rd' = rd \<longrightarrow> R s (snd r)"
  from read obtain q where loop: "read_loop rd n [] s = Some (q, s')"
    by (auto simp: read_full_def split: option.splits)
  have "?P rd n [] s (q, s')"
  proof (rule read_loop.raw_induct [where P = ?P, OF _ loop], intro impI)
    fix f rd' want got s r
    assume IH: "\<And>rd' want got s r. f rd' want got s = Some r \<Longrightarrow> ?P rd' want got s r"
      and eq: "(if want \<le> length got then Some ((got, None), s)
        else case rd' (want - length got) s of None \<Rightarrow> None
          | Some r \<Rightarrow> (case snd (fst r) of None \<Rightarrow> f rd' want (got @ fst (fst r)) (snd r)
              | Some err \<Rightarrow> Some ((got @ fst (fst r), Some err), snd r))) = Some r"
      and rd': "rd' = rd"
    show "R s (snd r)"
    proof (cases "want \<le> length got")
      case True
      with eq rt(1) show ?thesis by auto
    next
      case False
      with eq obtain q where rd1: "rd (want - length got) s = Some q"
        by (auto simp: rd' split: option.splits)
      then have "R s (snd q)"
        using step [of _ s "fst q" "snd q"] by simp
      moreover have "R (snd q) (snd r)"
        using eq False rd1 rt(1) IH [of rd want "got @ fst (fst q)" "snd q" r]
        by (auto simp: rd' split: option.splits)
      ultimately show ?thesis by (rule rt(2))
    qed
  qed
  then show ?thesis by simp
qed

lemma write_all_rel:
  assumes step: "\<And>b s r s'. wr b s = Some (r, s') \<Longrightarrow> R s s'"
    and rt: "\<And>s. R s s" "\<And>s t u. R s t \<Longrightarrow> R t u \<Longrightarrow> R s u"
    and wrote: "write_all wr buf s = Some (r, s')"
  shows "R s s'"
proof -
  let ?P = "\<lambda>wr' buf written s r. wr' = wr \<longrightarrow> R s (snd r)"
  have "?P wr buf 0 s (r, s')"
  proof (rule write_all_loop.raw_induct [where P = ?P, OF _ wrote [unfolded write_all_def]], intro impI)
    fix f wr' buf written s r
    assume IH: "\<And>wr' buf written s r. f wr' buf written s = Some r \<Longrightarrow> ?P wr' buf written s r"
      and eq: "(if written < length buf
        then case wr' (drop written buf) s of None \<Rightarrow> None
          | Some r \<Rightarrow> (case snd (fst r) of Some err \<Rightarrow> Some ((written + fst (fst r), Some err), snd r)
              | None \<Rightarrow> f wr' buf (written + fst (fst r)) (snd r))
        else Some ((written, None), s)) = Some r"
      and wr': "wr' = wr"
    show "R s (snd r)"
    proof (cases "written < length buf")
      case False
      with eq rt(1) show ?thesis by auto
    next
      case True
      with eq obtain q where wr1: "wr (drop written buf) s = Some q"
        by (auto simp: wr' split: option.splits)
      then have "R s (snd q)"
        using step [of _ s "fst q" "snd q"] by simp
      moreover have "R (snd q) (snd r)"
        using eq True wr1 rt(1) IH [of wr buf "written + fst (fst q)" "snd q" r]
        by (auto simp: wr' split: option.splits)
      ultimately show ?thesis by (rule rt(2))
    qed
  qed
  then show ?thesis by simp
qed

end
