(* ===== verification/Transport.thy ===== *)
theory Transport
  imports Go_Strings Stream_IO
begin

text \<open>
  \<open>pkg/transport/transport.go\<close>: the transport names and the configuration record, and the
  parts of Go's runtime that all backends use: instants and deadlines (\<open>time.Time\<close>), and
  the connection interface \<open>net.Conn\<close> as a record of functions on a state.
\<close>

section \<open>Configuration\<close>

definition TypeSCTP :: string where "TypeSCTP = ''sctp''"
definition TypeSCTPKernel :: string where "TypeSCTPKernel = ''sctp-kernel''"
definition TypeQUIC :: string where "TypeQUIC = ''quic''"

text \<open>The fields of \<open>transport.Config\<close>; durations are nanoseconds.\<close>

record config =
  TransportType :: string
  LocalIP :: string
  LocalPort :: int
  RemoteIP :: string
  RemotePort :: int
  ChannelCount :: int
  NoDelay :: bool
  HeartbeatMS :: int
  ReadBuffer :: int
  WriteBuffer :: int
  ConnectTimeout :: int
  TLS :: bool
  ALPN :: string
  CertFile :: string
  KeyFile :: string
  CAFile :: string

definition ErrNotImplemented :: go_error where
  "ErrNotImplemented = Errorf ''transport backend not implemented'' [] []"

text \<open>The zero value of the record, as a composite literal that sets no field leaves it.\<close>

definition zero_config :: config where
  "zero_config = \<lparr>TransportType = [], LocalIP = [], LocalPort = 0, RemoteIP = [], RemotePort = 0,
     ChannelCount = 0, NoDelay = False, HeartbeatMS = 0, ReadBuffer = 0, WriteBuffer = 0,
     ConnectTimeout = 0, TLS = False, ALPN = [], CertFile = [], KeyFile = [], CAFile = []\<rparr>"

section \<open>Instants\<close>

text \<open>
  \<open>time.Time\<close>: the zero time, which as a deadline means none, or an instant in nanoseconds
  since the epoch. The zero time (year 1) comes before every instant the program handles.
\<close>

datatype go_time = ZeroTime | At int

fun is_zero :: "go_time \<Rightarrow> bool" where
  "is_zero ZeroTime = True"
| "is_zero (At t) = False"

instantiation go_time :: linorder
begin

fun less_eq_go_time :: "go_time \<Rightarrow> go_time \<Rightarrow> bool" where
  "ZeroTime \<le> _ = True"
| "At _ \<le> ZeroTime = False"
| "At a \<le> At b = (a \<le> b)"

definition less_go_time :: "go_time \<Rightarrow> go_time \<Rightarrow> bool" where
  "s < t \<longleftrightarrow> s \<le> t \<and> \<not> t \<le> (s :: go_time)"

instance
proof
  fix x y z :: go_time
  show "(x < y) = (x \<le> y \<and> \<not> y \<le> x)" by (rule less_go_time_def)
  show "x \<le> x" by (cases x) simp_all
  show "x \<le> y \<Longrightarrow> y \<le> z \<Longrightarrow> x \<le> z" by (cases x; cases y; cases z) simp_all
  show "x \<le> y \<Longrightarrow> y \<le> x \<Longrightarrow> x = y" by (cases x; cases y) simp_all
  show "x \<le> y \<or> y \<le> x" by (cases x; cases y) auto
qed

end

text \<open>\<open>t.Sub(u)\<close> saturates at the ends of the \<open>int64\<close> range.\<close>

definition time_sub :: "int \<Rightarrow> int \<Rightarrow> int" where
  "time_sub t u = max min_int64 (min max_int64 (t - u))"

lemma time_sub_in_int64 [go_range]: "in_int64 (time_sub t u)"
  by (simp add: time_sub_def in_int64_def min_int64_def max_int64_def)

lemma time_sub_exact: "in_int64 (t - u) \<Longrightarrow> time_sub t u = t - u"
  by (simp add: time_sub_def in_int64_def)

text \<open>The deadline argument for \<open>SetReadDeadline\<close>: that of the context, or the zero time.\<close>

definition ctx_deadline :: "int option \<Rightarrow> go_time" where
  "ctx_deadline dl = (case dl of Some d \<Rightarrow> At d | None \<Rightarrow> ZeroTime)"

text \<open>The deadline of \<open>context.WithTimeout(parent, d)\<close> made at time \<open>now\<close>.\<close>

definition with_timeout :: "int option \<Rightarrow> int \<Rightarrow> int \<Rightarrow> int option" where
  "with_timeout parent now d =
     (case parent of None \<Rightarrow> Some (now + d) | Some p \<Rightarrow> Some (if p < now + d then p else now + d))"

section \<open>Connections\<close>

text \<open>
  \<open>net.Conn\<close> over a state \<open>'s\<close>: the methods the channels call. A call that has not
  returned is \<open>None\<close>. Setting a deadline does not block; its error is ignored by the code.
\<close>

record 's net_conn =
  conn_read :: "'s reader"
  conn_write :: "'s writer"
  conn_set_read_deadline :: "go_time \<Rightarrow> 's \<Rightarrow> 's"
  conn_set_write_deadline :: "go_time \<Rightarrow> 's \<Rightarrow> 's"

end
