(* ===== verification/Config.thy ===== *)
theory Config
  imports Transport
begin

text \<open>
  \<open>pkg/config/config.go\<close>: the run configuration, the defaults and \<open>Load\<close>. Durations are
  nanoseconds. The YAML decoder is outside the repository and is an argument of \<open>Load\<close>.
\<close>

section \<open>The configuration\<close>

record run_config =
  RunMode :: string
  Duration :: int
  Warmup :: int
  StepDuration :: int
  StepPPS :: int
  StepCount :: int
  BasePPS :: int
  PPS :: int
  Workers :: int
  RunChannelCount :: int
  OutputCSV :: string
  NASPath :: string
  NASHex :: bool
  RecvTimeout :: int
  ConnectWait :: int
  StepStartPPS :: int
  StepIncrement :: int
  LatencyRateLimit :: bool

record app_config =
  TransportPart :: config
  RunPart :: run_config

definition second :: int where
  "second = 1000000000"

definition zero_run_config :: run_config where
  "zero_run_config = \<lparr>RunMode = [], Duration = 0, Warmup = 0, StepDuration = 0, StepPPS = 0,
     StepCount = 0, BasePPS = 0, PPS = 0, Workers = 0, RunChannelCount = 0, OutputCSV = [],
     NASPath = [], NASHex = False, RecvTimeout = 0, ConnectWait = 0, StepStartPPS = 0,
     StepIncrement = 0, LatencyRateLimit = False\<rparr>"

text \<open>Fields that the composite literals leave out have their zero values.\<close>

definition Default :: app_config where
  "Default =
     \<lparr>TransportPart = zero_config\<lparr>
        TransportType := TypeSCTP,
        LocalIP := ''127.0.0.1'',
        LocalPort := 38412,
        RemoteIP := ''127.0.0.1'',
        RemotePort := 38412,
        ChannelCount := 1,
        NoDelay := True,
        HeartbeatMS := 30000,
        ConnectTimeout := 5 * second,
        TLS := False\<rparr>,
      RunPart = zero_run_config\<lparr>
        RunMode := ''latency'',
        Duration := 10 * second,
        Warmup := 2 * second,
        StepDuration := 5 * second,
        StepPPS := 1000,
        StepCount := 5,
        BasePPS := 1000,
        PPS := 1000,
        Workers := 1,
        RunChannelCount := 1,
        OutputCSV := ''summary.csv'',
        RecvTimeout := 1 * second,
        ConnectWait := 5 * second,
        StepStartPPS := 1000,
        StepIncrement := 1000,
        LatencyRateLimit := True\<rparr>\<rparr>"

section \<open>Loading a file\<close>

text \<open>
  \<open>files\<close> is what \<open>os.ReadFile\<close> returns for a path, and \<open>unmarshal raw cfg\<close> what
  \<open>yaml.Unmarshal(raw, &cfg)\<close> makes of \<open>cfg\<close>.
\<close>

type_synonym yaml_decoder = "bytes \<Rightarrow> app_config \<Rightarrow> go_error + app_config"

definition LoadConfig :: "(string \<Rightarrow> go_error + bytes) \<Rightarrow> yaml_decoder \<Rightarrow> string \<Rightarrow> go_error + app_config" where
  "LoadConfig files unmarshal path =
     (let cfg = Default
      in if path = [] then Inr cfg
         else case files path of
             Inl err \<Rightarrow> Inl (Wrapf ''read config: %w'' err)
           | Inr raw \<Rightarrow>
               (case unmarshal raw cfg of
                  Inl err \<Rightarrow> Inl (Wrapf ''parse config: %w'' err)
                | Inr cfg \<Rightarrow> Inr cfg))"

end
