(* ===== verification/Channel.thy ===== *)
theory Channel
  imports Transport
begin

text \<open>
  The interface between the applications and the transports (\<open>transport.Channel\<close> in
  \<open>pkg/transport/transport.go\<close>): the operations as a record of functions, and the contract
  under which the load generator and the server exchange messages, as a locale. Each
  transport interprets the locale on its own \<open>Send\<close> and \<open>Recv\<close>.
\<close>

section \<open>The operations\<close>

text \<open>
  \<open>ch_Send ch dl b s\<close> is \<open>Send\<close> of the message \<open>b\<close> under a context with deadline \<open>dl\<close>,
  \<open>ch_Recv ch dl s\<close> is \<open>Recv\<close>; a call that has not returned is \<open>None\<close>.
\<close>

record 's channel =
  ch_ID :: u16
  ch_Send :: "int option \<Rightarrow> bytes \<Rightarrow> 's \<Rightarrow> (go_error option \<times> 's) option"
  ch_Recv :: "int option \<Rightarrow> 's \<Rightarrow> ((go_error + bytes) \<times> 's) option"

section \<open>The contract\<close>

text \<open>
  \<open>out s\<close> and \<open>inn s\<close> are the byte streams of the connection: what has been sent and what is
  still to be received. \<open>on_wire b\<close> is how the transport writes one message on its stream.
  \<open>timely dl k s\<close> says that the transfer of the next \<open>k\<close> bytes ends before the deadline \<open>dl\<close>.
  While the connection is \<open>up\<close> for as many bytes and the context of the call leaves time for
  the message, \<open>Send\<close> puts the message on the outgoing stream and \<open>Recv\<close> takes exactly one
  encoded frame from the incoming one; neither touches the other direction, and what was
  timely for more bytes is timely for the bytes behind the message.
\<close>

locale message_channel =
  fixes ch :: "'s channel" and out inn :: "'s \<Rightarrow> bytes" and up :: "nat \<Rightarrow> 's \<Rightarrow> bool"
    and timely :: "int option \<Rightarrow> nat \<Rightarrow> 's \<Rightarrow> bool" and on_wire :: "bytes \<Rightarrow> bytes"
  assumes send_up: "up k s \<Longrightarrow> frame_encode f = Inr b \<Longrightarrow> length (on_wire b) \<le> k \<Longrightarrow>
      timely dl (length (on_wire b)) s \<Longrightarrow>
      \<exists>s'. ch_Send ch dl b s = Some (None, s') \<and> out s' = out s @ on_wire b \<and> inn s' = inn s
        \<and> up (k - length (on_wire b)) s' \<and> (\<forall>d j. timely d (length (on_wire b) + j) s \<longrightarrow> timely d j s')"
    and recv_up: "up k s \<Longrightarrow> frame_encode f = Inr b \<Longrightarrow> inn s = on_wire b @ rest \<Longrightarrow>
      length (on_wire b) \<le> k \<Longrightarrow> timely dl (length (on_wire b)) s \<Longrightarrow>
      \<exists>s'. ch_Recv ch dl s = Some (Inr b, s') \<and> out s' = out s \<and> inn s' = rest
        \<and> up (k - length (on_wire b)) s' \<and> (\<forall>d j. timely d (length (on_wire b) + j) s \<longrightarrow> timely d j s')"
    and timely_less: "timely dl k s \<Longrightarrow> j \<le> k \<Longrightarrow> timely dl j s"

end
