(* ===== verification/Fd_Conn.thy ===== *)
theory Fd_Conn
  imports Transport
begin

unbundle bit_operations_syntax

text \<open>
  The kernel socket of \<open>pkg/transport/sctpkernel/sctpkernel_linux.go\<close>: the system calls it
  makes, and \<open>fdConn\<close>, its non-blocking connection with deadlines.

  The environment is a \<open>world\<close>: the answers the kernel will give to the next system calls
  in order (\<open>script\<close>), the bytes the peer has sent and nobody has read (\<open>inbox\<close>), the bytes
  written (\<open>outbox\<close>), and the calls made so far (\<open>trace\<close>). A theorem for every script is a
  theorem for every behaviour of the kernel, the clock and the context; a function whose
  script runs out is still waiting and returns \<open>None\<close>. A read takes at most as many bytes
  as the answer says, as the buffer holds and as the peer has sent.
\<close>

section \<open>System calls\<close>

datatype sockaddr = Inet4 bytes int | Inet6 bytes int | OtherAddr

datatype syscall =
    SysSocket nat
  | SysSetNonblock int
  | SysSetsockopt int string int
  | SysBind int sockaddr
  | SysListen int
  | SysAccept int
  | SysConnect int sockaddr
  | SysGetsockopt int
  | SysPoll int u16 int
  | SysRead int nat
  | SysWrite int bytes
  | SysClose int

text \<open>
  One answer: the clock and the state of the context when the call is prepared, the error
  number, the returned value, and for \<open>poll\<close> the returned events.
\<close>

record answer =
  a_now :: int
  a_ctx :: "go_error option"
  a_err :: "nat option"
  a_val :: nat
  a_re :: u16

record world =
  script :: "answer list"
  inbox :: bytes
  outbox :: bytes
  trace :: "syscall list"

definition POLLIN :: u16 where "POLLIN = 1"
definition POLLOUT :: u16 where "POLLOUT = 4"
definition POLLERR :: u16 where "POLLERR = 8"
definition POLLHUP :: u16 where "POLLHUP = 16"
definition POLLNVAL :: u16 where "POLLNVAL = 32"

definition poll_failed :: "u16 \<Rightarrow> bool" where
  "poll_failed re \<longleftrightarrow> re AND (POLLERR OR POLLHUP OR POLLNVAL) \<noteq> 0"

definition poll_error :: go_error where
  "poll_error = Errorf ''poll error'' [] []"

text \<open>The world after a call \<open>c\<close> has been answered.\<close>

definition called :: "syscall \<Rightarrow> world \<Rightarrow> world" where
  "called c w = w\<lparr>script := tl (script w), trace := trace w @ [c]\<rparr>"

lemma called_simps [simp]:
  "script (called c w) = tl (script w)"
  "inbox (called c w) = inbox w"
  "outbox (called c w) = outbox w"
  "trace (called c w) = trace w @ [c]"
  by (simp_all add: called_def)

section \<open>fdConn\<close>

record fd_conn =
  fd :: int
  fd_closed :: bool
  readDL :: go_time
  writeDL :: go_time

definition newFDConn :: "int \<Rightarrow> fd_conn" where
  "newFDConn n = \<lparr>fd = n, fd_closed = False, readDL = ZeroTime, writeDL = ZeroTime\<rparr>"

text \<open>\<open>deadlineTimeout\<close>: milliseconds for \<open>poll\<close>, \<open>-1\<close> to wait for ever.\<close>

definition deadlineTimeout :: "fd_conn \<Rightarrow> bool \<Rightarrow> int \<Rightarrow> int" where
  "deadlineTimeout c reading now =
     (let dl = (if reading then readDL c else writeDL c)
      in case dl of
           ZeroTime \<Rightarrow> - 1
         | At t \<Rightarrow>
             (let d = time_sub t now
              in if d \<le> 0 then 0
                 else
                   let ms = go_div d 1000000
                   in if ms \<le> 0 then 1 else ms))"

text \<open>
  The body of the loop of \<open>wait\<close> after \<open>poll\<close> has answered: \<open>None\<close> goes round again.
\<close>

definition poll_verdict :: "u16 \<Rightarrow> answer \<Rightarrow> (go_error + unit) option" where
  "poll_verdict events a =
     (case a_err a of
        Some err \<Rightarrow> if err = EINTR then None else Some (Inl (Errno err))
      | None \<Rightarrow>
          if a_val a = 0 then Some (Inl IoTimeout)
          else if poll_failed (a_re a) then Some (Inl poll_error)
          else if a_re a AND events \<noteq> 0 then Some (Inr ())
          else None)"

definition wait_called :: "fd_conn \<Rightarrow> u16 \<Rightarrow> bool \<Rightarrow> world \<Rightarrow> world" where
  "wait_called c events reading w =
     called (SysPoll (fd c) events (deadlineTimeout c reading (a_now (hd (script w))))) w"

function fd_wait :: "fd_conn \<Rightarrow> u16 \<Rightarrow> bool \<Rightarrow> world \<Rightarrow> ((go_error + unit) \<times> world) option" where
  "fd_wait c events reading w =
     (case script w of
        [] \<Rightarrow> None
      | a # _ \<Rightarrow>
          (case poll_verdict events a of
             Some r \<Rightarrow> Some (r, wait_called c events reading w)
           | None \<Rightarrow> fd_wait c events reading (wait_called c events reading w)))"
  by pat_completeness auto
termination
  by (relation "measure (\<lambda>(c, events, reading, w). length (script w))") (auto simp: wait_called_def)

declare fd_wait.simps [simp del]

lemma wait_called_simps [simp]:
  "script (wait_called c events reading w) = tl (script w)"
  "inbox (wait_called c events reading w) = inbox w"
  "outbox (wait_called c events reading w) = outbox w"
  by (simp_all add: wait_called_def)

lemma fd_wait_Nil [simp]: "script w = [] \<Longrightarrow> fd_wait c events reading w = None"
  by (subst fd_wait.simps) simp

lemma fd_wait_Cons:
  "script w = a # as \<Longrightarrow>
    fd_wait c events reading w =
      (case poll_verdict events a of
         Some r \<Rightarrow> Some (r, wait_called c events reading w)
       | None \<Rightarrow> fd_wait c events reading (wait_called c events reading w))"
  by (subst fd_wait.simps) simp

lemma fd_wait_effect:
  "fd_wait c events reading w = Some (r, w') \<Longrightarrow>
    length (script w') < length (script w) \<and> inbox w' = inbox w \<and> outbox w' = outbox w"
proof (induction "script w" arbitrary: w)
  case (Cons a as)
  then show ?case
    using Cons.hyps(1) [of "wait_called c events reading w"]
    by (auto simp: fd_wait_Cons [OF Cons.hyps(2) [symmetric]] Cons.hyps(2) [symmetric]
        split: option.splits)
qed simp

definition would_retry :: "nat \<Rightarrow> bool" where
  "would_retry err \<longleftrightarrow> err = EINTR \<or> err = EAGAIN"

text \<open>
  What \<open>Read\<close> and \<open>Write\<close> make of the kernel's answer: \<open>None\<close> goes round the loop again.
\<close>

definition read_verdict :: "nat \<Rightarrow> bytes \<Rightarrow> answer \<Rightarrow> (bytes \<times> go_error option) option" where
  "read_verdict n pending a =
     (case a_err a of
        Some err \<Rightarrow> if would_retry err then None else Some ([], Some (Errno err))
      | None \<Rightarrow>
          let k = min (a_val a) (min n (length pending))
          in Some (if k = 0 then ([], Some ErrEOF) else (take k pending, None)))"

definition write_verdict :: "bytes \<Rightarrow> answer \<Rightarrow> (nat \<times> go_error option) option" where
  "write_verdict b a =
     (case a_err a of
        Some err \<Rightarrow> if would_retry err then None else Some (0, Some (Errno err))
      | None \<Rightarrow> Some (min (a_val a) (length b), None))"

function fd_read :: "fd_conn \<Rightarrow> nat \<Rightarrow> world \<Rightarrow> ((bytes \<times> go_error option) \<times> world) option" where
  "fd_read c n w =
     (case fd_wait c POLLIN True w of
        None \<Rightarrow> None
      | Some (Inl err, w) \<Rightarrow> Some (([], Some err), w)
      | Some (Inr _, w) \<Rightarrow>
          (case script w of
             [] \<Rightarrow> None
           | a # _ \<Rightarrow>
               (case read_verdict n (inbox w) a of
                  None \<Rightarrow> fd_read c n (called (SysRead (fd c) n) w)
                | Some (bs, err) \<Rightarrow>
                    Some ((bs, err), (called (SysRead (fd c) n) w)\<lparr>inbox := drop (length bs) (inbox w)\<rparr>))))"
  by pat_completeness auto
termination
  by (relation "measure (\<lambda>(c, n, w). length (script w))") (auto dest!: fd_wait_effect)

function fd_write :: "fd_conn \<Rightarrow> bytes \<Rightarrow> world \<Rightarrow> ((nat \<times> go_error option) \<times> world) option" where
  "fd_write c b w =
     (case fd_wait c POLLOUT False w of
        None \<Rightarrow> None
      | Some (Inl err, w) \<Rightarrow> Some ((0, Some err), w)
      | Some (Inr _, w) \<Rightarrow>
          (case script w of
             [] \<Rightarrow> None
           | a # _ \<Rightarrow>
               (case write_verdict b a of
                  None \<Rightarrow> fd_write c b (called (SysWrite (fd c) b) w)
                | Some (k, err) \<Rightarrow>
                    Some ((k, err), (called (SysWrite (fd c) b) w)\<lparr>outbox := outbox w @ take k b\<rparr>))))"
  by pat_completeness auto
termination
  by (relation "measure (\<lambda>(c, b, w). length (script w))") (auto dest!: fd_wait_effect)

declare fd_read.simps [simp del] fd_write.simps [simp del]

lemma fd_read_effect:
  "fd_read c n w = Some ((bs, e), w') \<Longrightarrow>
    length bs \<le> n \<and> inbox w = bs @ inbox w' \<and> outbox w' = outbox w \<and> (bs = [] \<longleftrightarrow> e \<noteq> None)"
proof (induction "length (script w)" arbitrary: w rule: less_induct)
  case less
  from less.prems obtain r w1 where wait: "fd_wait c POLLIN True w = Some (r, w1)"
    by (subst (asm) fd_read.simps) (auto split: option.splits)
  note eff = fd_wait_effect [OF wait]
  show ?case
  proof (cases r)
    case (Inl err)
    with less.prems wait eff show ?thesis
      by (subst (asm) fd_read.simps) auto
  next
    case (Inr u)
    with less.prems wait obtain a as where s1: "script w1 = a # as"
      by (subst (asm) fd_read.simps) (auto split: list.splits)
    show ?thesis
    proof (cases "read_verdict n (inbox w1) a")
      case None
      with less.prems wait Inr s1 have "fd_read c n (called (SysRead (fd c) n) w1) = Some ((bs, e), w')"
        by (subst (asm) fd_read.simps) simp
      from less.hyps [OF _ this] s1 eff show ?thesis by simp
    next
      case (Some v)
      with less.prems wait Inr s1 have v: "v = (bs, e) \<and> w' = (called (SysRead (fd c) n) w1)\<lparr>inbox := drop (length bs) (inbox w1)\<rparr>"
        by (subst (asm) fd_read.simps) (auto split: prod.splits)
      with Some eff show ?thesis
        by (auto simp: read_verdict_def Let_def min_def split: option.splits if_splits)
    qed
  qed
qed

lemma fd_write_effect:
  "fd_write c b w = Some ((k, e), w') \<Longrightarrow>
    k \<le> length b \<and> outbox w' = outbox w @ take k b \<and> inbox w' = inbox w"
proof (induction "length (script w)" arbitrary: w rule: less_induct)
  case less
  from less.prems obtain r w1 where wait: "fd_wait c POLLOUT False w = Some (r, w1)"
    by (subst (asm) fd_write.simps) (auto split: option.splits)
  note eff = fd_wait_effect [OF wait]
  show ?case
  proof (cases r)
    case (Inl err)
    with less.prems wait eff show ?thesis
      by (subst (asm) fd_write.simps) auto
  next
    case (Inr u)
    with less.prems wait obtain a as where s1: "script w1 = a # as"
      by (subst (asm) fd_write.simps) (auto split: list.splits)
    show ?thesis
    proof (cases "write_verdict b a")
      case None
      with less.prems wait Inr s1 have "fd_write c b (called (SysWrite (fd c) b) w1) = Some ((k, e), w')"
        by (subst (asm) fd_write.simps) simp
      from less.hyps [OF _ this] s1 eff show ?thesis by simp
    next
      case (Some v)
      with less.prems wait Inr s1 have v: "v = (k, e) \<and> w' = (called (SysWrite (fd c) b) w1)\<lparr>outbox := outbox w1 @ take k b\<rparr>"
        by (subst (asm) fd_write.simps) (auto split: prod.splits)
      with Some eff show ?thesis
        by (auto simp: write_verdict_def split: option.splits if_splits)
    qed
  qed
qed

text \<open>\<open>Close\<close>: the descriptor is closed once.\<close>

definition fd_close :: "fd_conn \<Rightarrow> world \<Rightarrow> ((go_error option \<times> fd_conn) \<times> world) option" where
  "fd_close c w =
     (if fd_closed c then Some ((None, c), w)
      else
        let c = c\<lparr>fd_closed := True\<rparr>
        in case script w of
             [] \<Rightarrow> None
           | a # _ \<Rightarrow> Some ((map_option Errno (a_err a), c), called (SysClose (fd c)) w))"

definition SetDeadline :: "go_time \<Rightarrow> fd_conn \<Rightarrow> fd_conn" where
  "SetDeadline t c = c\<lparr>readDL := t, writeDL := t\<rparr>"

definition SetReadDeadline :: "go_time \<Rightarrow> fd_conn \<Rightarrow> fd_conn" where
  "SetReadDeadline t c = c\<lparr>readDL := t\<rparr>"

definition SetWriteDeadline :: "go_time \<Rightarrow> fd_conn \<Rightarrow> fd_conn" where
  "SetWriteDeadline t c = c\<lparr>writeDL := t\<rparr>"

text \<open>The connection as a \<open>net.Conn\<close> over its own fields and the world.\<close>

definition fd_Read :: "(fd_conn \<times> world) reader" where
  "fd_Read n s = map_option (\<lambda>(r, w). (r, (fst s, w))) (fd_read (fst s) n (snd s))"

definition fd_Write :: "(fd_conn \<times> world) writer" where
  "fd_Write b s = map_option (\<lambda>(r, w). (r, (fst s, w))) (fd_write (fst s) b (snd s))"

definition fd_net_conn :: "(fd_conn \<times> world) net_conn" where
  "fd_net_conn = \<lparr>conn_read = fd_Read, conn_write = fd_Write,
     conn_set_read_deadline = (\<lambda>t. map_prod (SetReadDeadline t) id),
     conn_set_write_deadline = (\<lambda>t. map_prod (SetWriteDeadline t) id)\<rparr>"

section \<open>The connection as a byte stream\<close>

text \<open>
  A script that lets the next \<open>k\<close> transfers succeed: any number of interrupted or spurious
  polls and of reads or writes to be retried, then an answer that moves at least one byte,
  \<open>k\<close> times. How many bytes each answer moves is not restricted.
\<close>

fun serves :: "u16 \<Rightarrow> nat \<Rightarrow> answer list \<Rightarrow> bool" where
  "serves events 0 as = True"
| "serves events (Suc k) [] = False"
| "serves events (Suc k) [p] = False"
| "serves events (Suc k) (p # r # as) =
     (case poll_verdict events p of
        None \<Rightarrow> serves events (Suc k) (r # as)
      | Some (Inl _) \<Rightarrow> False
      | Some (Inr _) \<Rightarrow>
          (case a_err r of
             Some err \<Rightarrow> would_retry err \<and> serves events (Suc k) as
           | None \<Rightarrow> 0 < a_val r \<and> serves events k as))"

lemma serves_mono: "serves events k as \<Longrightarrow> j \<le> k \<Longrightarrow> serves events j as"
proof (induction events k as arbitrary: j rule: serves.induct)
  case (4 events k p r as)
  show ?case
  proof (cases j)
    case (Suc i)
    then have i: "i \<le> k" using "4.prems" by simp
    show ?thesis
    proof (cases "poll_verdict events p")
      case None
      with "4.IH"(1) [OF None, of "Suc i"] "4.prems"(1) i Suc show ?thesis by simp
    next
      case (Some v)
      with "4.prems"(1) obtain u where v: "poll_verdict events p = Some (Inr u)"
        by (auto split: sum.splits)
      show ?thesis
      proof (cases "a_err r")
        case None
        with "4.IH"(2) [OF v refl None, of i] "4.prems"(1) v i Suc show ?thesis by simp
      next
        case (Some err)
        with "4.IH"(3) [OF v refl Some, of "Suc i"] "4.prems"(1) v i Suc show ?thesis by simp
      qed
    qed
  qed simp
qed simp_all

lemma serves_wait:
  "serves events (Suc k) (script w) \<Longrightarrow>
    \<exists>w' r as. fd_wait c events reading w = Some (Inr (), w') \<and> script w' = r # as
      \<and> (case a_err r of Some err \<Rightarrow> would_retry err \<and> serves events (Suc k) as
         | None \<Rightarrow> 0 < a_val r \<and> serves events k as)"
proof (induction "script w" arbitrary: w)
  case (Cons p as)
  note sw = Cons.hyps(2) [symmetric]
  from Cons.prems sw obtain r as' where as: "as = r # as'"
    by (cases as) simp_all
  show ?case
  proof (cases "poll_verdict events p")
    case None
    with Cons.prems sw as have "serves events (Suc k) (script (wait_called c events reading w))"
      by simp
    from Cons.hyps(1) [OF _ this] sw None show ?thesis
      by (simp add: fd_wait_Cons [OF sw])
  next
    case (Some v)
    with Cons.prems sw as have "v = Inr ()"
      by (auto split: sum.splits)
    with Some Cons.prems sw as show ?thesis
      by (intro exI [of _ "wait_called c events reading w"] exI [of _ r] exI [of _ as'])
        (simp add: fd_wait_Cons [OF sw])
  qed
qed simp

lemma fd_read_serves:
  "serves POLLIN (Suc j) (script w) \<Longrightarrow> inbox w \<noteq> [] \<Longrightarrow> 0 < n \<Longrightarrow>
    \<exists>bs w'. fd_read c n w = Some ((bs, None), w') \<and> bs \<noteq> [] \<and> serves POLLIN j (script w')"
proof (induction "length (script w)" arbitrary: w rule: less_induct)
  case less
  obtain w1 r as where wait: "fd_wait c POLLIN True w = Some (Inr (), w1)" and s1: "script w1 = r # as"
    and nxt: "case a_err r of Some err \<Rightarrow> would_retry err \<and> serves POLLIN (Suc j) as
      | None \<Rightarrow> 0 < a_val r \<and> serves POLLIN j as"
    using serves_wait [of POLLIN j w c True] less.prems(1) by auto
  note eff = fd_wait_effect [OF wait]
  have unfold: "fd_read c n w =
      (case read_verdict n (inbox w1) r of
         None \<Rightarrow> fd_read c n (called (SysRead (fd c) n) w1)
       | Some (bs, err) \<Rightarrow>
           Some ((bs, err), (called (SysRead (fd c) n) w1)\<lparr>inbox := drop (length bs) (inbox w1)\<rparr>))"
    by (subst fd_read.simps) (simp add: wait s1)
  show ?case
  proof (cases "a_err r")
    case (Some err)
    with nxt have "read_verdict n (inbox w1) r = None" and "serves POLLIN (Suc j) as"
      by (simp_all add: read_verdict_def)
    with less.hyps [of "called (SysRead (fd c) n) w1"] less.prems s1 eff show ?thesis
      by (simp add: unfold)
  next
    case None
    let ?m = "min (a_val r) (min n (length (inbox w1)))"
    have m: "0 < ?m" using None nxt less.prems eff by simp
    then have v: "read_verdict n (inbox w1) r = Some (take ?m (inbox w1), None)"
      using None by (simp add: read_verdict_def Let_def)
    then show ?thesis
      using m None nxt eff less.prems s1 by (simp add: unfold)
  qed
qed

lemma fd_write_serves:
  "serves POLLOUT (Suc j) (script w) \<Longrightarrow> b \<noteq> [] \<Longrightarrow>
    \<exists>m w'. fd_write c b w = Some ((m, None), w') \<and> 0 < m \<and> serves POLLOUT j (script w')"
proof (induction "length (script w)" arbitrary: w rule: less_induct)
  case less
  obtain w1 r as where wait: "fd_wait c POLLOUT False w = Some (Inr (), w1)" and s1: "script w1 = r # as"
    and nxt: "case a_err r of Some err \<Rightarrow> would_retry err \<and> serves POLLOUT (Suc j) as
      | None \<Rightarrow> 0 < a_val r \<and> serves POLLOUT j as"
    using serves_wait [of POLLOUT j w c False] less.prems(1) by auto
  note eff = fd_wait_effect [OF wait]
  have unfold: "fd_write c b w =
      (case write_verdict b r of
         None \<Rightarrow> fd_write c b (called (SysWrite (fd c) b) w1)
       | Some (m, err) \<Rightarrow>
           Some ((m, err), (called (SysWrite (fd c) b) w1)\<lparr>outbox := outbox w1 @ take m b\<rparr>))"
    by (subst fd_write.simps) (simp add: wait s1)
  show ?case
  proof (cases "a_err r")
    case (Some err)
    with nxt have "write_verdict b r = None" and "serves POLLOUT (Suc j) as"
      by (simp_all add: write_verdict_def)
    with less.hyps [of "called (SysWrite (fd c) b) w1"] less.prems s1 eff show ?thesis
      by (simp add: unfold)
  next
    case None
    with nxt less.prems(2) s1 show ?thesis
      by (simp add: unfold write_verdict_def)
  qed
qed

text \<open>
  \<open>fdConn.Read\<close> satisfies the contract of a byte source and \<open>fdConn.Write\<close> that of a byte
  sink, whatever the kernel answers; they are ready when the script serves that many bytes
  (and \<open>j\<close> transfers more, which are left for later calls).
\<close>

definition fd_pend :: "fd_conn \<times> world \<Rightarrow> bytes" where
  "fd_pend s = inbox (snd s)"

definition fd_ready :: "nat \<Rightarrow> nat \<Rightarrow> fd_conn \<times> world \<Rightarrow> bool" where
  "fd_ready j k s \<longleftrightarrow> serves POLLIN (k + j) (script (snd s)) \<and> k \<le> length (inbox (snd s))"

definition fd_sent :: "fd_conn \<times> world \<Rightarrow> bytes" where
  "fd_sent s = outbox (snd s)"

definition fd_wready :: "nat \<Rightarrow> fd_conn \<times> world \<Rightarrow> bool" where
  "fd_wready k s \<longleftrightarrow> serves POLLOUT k (script (snd s))"

interpretation fd_source: byte_source fd_Read fd_pend "fd_ready j" for j
proof unfold_locales
  fix n s bs e s'
  assume "fd_Read n s = Some ((bs, e), s')"
  then show "length bs \<le> n \<and> fd_pend s = bs @ fd_pend s'"
    by (auto simp: fd_Read_def fd_pend_def dest: fd_read_effect)
next
  fix k n :: nat and s
  assume ready: "fd_ready j k s" and k: "0 < k" and n: "0 < n"
  then have "serves POLLIN (Suc (k - 1 + j)) (script (snd s))" and "inbox (snd s) \<noteq> []"
    by (auto simp: fd_ready_def)
  from fd_read_serves [OF this n, of "fst s"] obtain bs w'
    where rd: "fd_read (fst s) n (snd s) = Some ((bs, None), w')" "bs \<noteq> []"
      and srv: "serves POLLIN (k - 1 + j) (script w')"
    by blast
  have "k - length bs + j \<le> k - 1 + j"
    using rd(2) by (cases bs) auto
  with srv have "serves POLLIN (k - length bs + j) (script w')"
    by (rule serves_mono)
  with rd fd_read_effect [OF rd(1)] ready
  show "\<exists>bs s'. fd_Read n s = Some ((bs, None), s') \<and> bs \<noteq> [] \<and> fd_ready j (k - length bs) s'"
    by (auto simp: fd_Read_def fd_ready_def)
qed

interpretation fd_sink: byte_sink fd_Write fd_sent fd_wready
proof unfold_locales
  fix b s n e s'
  assume "fd_Write b s = Some ((n, e), s')"
  then show "n \<le> length b \<and> fd_sent s' = fd_sent s @ take n b"
    by (auto simp: fd_Write_def fd_sent_def dest: fd_write_effect)
next
  fix k s and b :: bytes
  assume "fd_wready k s" and "0 < k" and b: "b \<noteq> []"
  then have "serves POLLOUT (Suc (k - 1)) (script (snd s))"
    by (simp add: fd_wready_def)
  from fd_write_serves [OF this b, of "fst s"] obtain m w'
    where wr: "fd_write (fst s) b (snd s) = Some ((m, None), w')" "0 < m"
      and srv: "serves POLLOUT (k - 1) (script w')"
    by blast
  from srv have "serves POLLOUT (k - m) (script w')"
    by (rule serves_mono) (use wr(2) in simp)
  with wr show "\<exists>n s'. fd_Write b s = Some ((n, None), s') \<and> 0 < n \<and> fd_wready (k - n) s'"
    by (auto simp: fd_Write_def fd_wready_def)
qed

section \<open>Both directions\<close>

text \<open>
  What a call leaves alone: the answers that have not been used stay as they are, and a read
  does not touch what has been written, nor a write what is still to be read.
\<close>

definition script_rest :: "world \<Rightarrow> world \<Rightarrow> bool" where
  "script_rest w w' \<longleftrightarrow> (\<exists>n. script w' = drop n (script w))"

lemma script_rest_refl [simp]: "script_rest w w"
  by (auto simp: script_rest_def intro: exI [of _ 0])

lemma script_rest_trans: "script_rest u v \<Longrightarrow> script_rest v w \<Longrightarrow> script_rest u w"
  by (auto simp: script_rest_def)

lemma script_rest_tl: "script_rest v w \<Longrightarrow> script v = tl (script u) \<Longrightarrow> script_rest u w"
  by (auto simp: script_rest_def drop_Suc [symmetric])

lemma fd_wait_rest: "fd_wait c events reading w = Some (r, w') \<Longrightarrow> script_rest w w'"
proof (induction "script w" arbitrary: w)
  case (Cons a as)
  then show ?case
    using Cons.hyps(1) [of "wait_called c events reading w"]
    by (auto simp: fd_wait_Cons [OF Cons.hyps(2) [symmetric]] Cons.hyps(2) [symmetric]
        split: option.splits intro: script_rest_tl [of "wait_called c events reading w"])
qed simp

lemma fd_read_rest: "fd_read c n w = Some (r, w') \<Longrightarrow> script_rest w w'"
proof (induction "length (script w)" arbitrary: w rule: less_induct)
  case less
  from less.prems obtain v w1 where wait: "fd_wait c POLLIN True w = Some (v, w1)"
    by (subst (asm) fd_read.simps) (auto split: option.splits)
  note rest = fd_wait_rest [OF wait] and eff = fd_wait_effect [OF wait]
  show ?case
  proof (cases v)
    case (Inl err)
    with less.prems wait rest show ?thesis by (subst (asm) fd_read.simps) auto
  next
    case (Inr u)
    with less.prems wait obtain a as where s1: "script w1 = a # as"
      by (subst (asm) fd_read.simps) (auto split: list.splits)
    have "script_rest w1 w'"
    proof (rule script_rest_tl [of "called (SysRead (fd c) n) w1"])
      show "script_rest (called (SysRead (fd c) n) w1) w'"
        using less.prems wait Inr s1 less.hyps [of "called (SysRead (fd c) n) w1"] eff
        by (subst (asm) fd_read.simps)
          (auto split: option.splits prod.splits simp: script_rest_def intro: exI [of _ 0])
    qed simp
    with rest show ?thesis by (rule script_rest_trans)
  qed
qed

lemma fd_write_rest: "fd_write c b w = Some (r, w') \<Longrightarrow> script_rest w w'"
proof (induction "length (script w)" arbitrary: w rule: less_induct)
  case less
  from less.prems obtain v w1 where wait: "fd_wait c POLLOUT False w = Some (v, w1)"
    by (subst (asm) fd_write.simps) (auto split: option.splits)
  note rest = fd_wait_rest [OF wait] and eff = fd_wait_effect [OF wait]
  show ?case
  proof (cases v)
    case (Inl err)
    with less.prems wait rest show ?thesis by (subst (asm) fd_write.simps) auto
  next
    case (Inr u)
    with less.prems wait obtain a as where s1: "script w1 = a # as"
      by (subst (asm) fd_write.simps) (auto split: list.splits)
    have "script_rest w1 w'"
    proof (rule script_rest_tl [of "called (SysWrite (fd c) b) w1"])
      show "script_rest (called (SysWrite (fd c) b) w1) w'"
        using less.prems wait Inr s1 less.hyps [of "called (SysWrite (fd c) b) w1"] eff
        by (subst (asm) fd_write.simps)
          (auto split: option.splits prod.splits simp: script_rest_def intro: exI [of _ 0])
    qed simp
    with rest show ?thesis by (rule script_rest_trans)
  qed
qed

definition recv_frame :: "fd_conn \<times> world \<Rightarrow> fd_conn \<times> world \<Rightarrow> bool" where
  "recv_frame s s' \<longleftrightarrow> outbox (snd s') = outbox (snd s) \<and> script_rest (snd s) (snd s')"

definition send_frame :: "fd_conn \<times> world \<Rightarrow> fd_conn \<times> world \<Rightarrow> bool" where
  "send_frame s s' \<longleftrightarrow> inbox (snd s') = inbox (snd s) \<and> script_rest (snd s) (snd s')"

lemma fd_Read_frame: "fd_Read n s = Some (r, s') \<Longrightarrow> recv_frame s s'"
  by (cases r) (auto simp: fd_Read_def recv_frame_def dest: fd_read_effect fd_read_rest)

lemma fd_Write_frame: "fd_Write b s = Some (r, s') \<Longrightarrow> send_frame s s'"
  by (cases r) (auto simp: fd_Write_def send_frame_def dest: fd_write_effect fd_write_rest)

lemma frame_refl [simp]: "recv_frame s s" "send_frame s s"
  by (simp_all add: recv_frame_def send_frame_def)

lemma frame_trans:
  "recv_frame s t \<Longrightarrow> recv_frame t u \<Longrightarrow> recv_frame s u"
  "send_frame s t \<Longrightarrow> send_frame t u \<Longrightarrow> send_frame s u"
  by (auto simp: recv_frame_def send_frame_def intro: script_rest_trans)

text \<open>
  A script that serves both directions alike: each answer lets a reader and a writer
  proceed, or neither.
\<close>

definition duplex :: "answer \<Rightarrow> bool" where
  "duplex a \<longleftrightarrow> poll_verdict POLLIN a = poll_verdict POLLOUT a"

lemma serves_duplex: "list_all duplex as \<Longrightarrow> serves POLLIN k as = serves POLLOUT k as"
proof (induction POLLIN k as rule: serves.induct)
  case (4 k p r as)
  then show ?case
    by (auto simp: duplex_def split: option.splits sum.splits)
qed simp_all

definition fd_up :: "nat \<Rightarrow> fd_conn \<times> world \<Rightarrow> bool" where
  "fd_up k s \<longleftrightarrow> serves POLLIN k (script (snd s)) \<and> list_all duplex (script (snd s))"

lemma duplex_rest: "script_rest w w' \<Longrightarrow> list_all duplex (script w) \<Longrightarrow> list_all duplex (script w')"
  unfolding script_rest_def list_all_iff by (metis in_set_dropD)

section \<open>The closed flag\<close>

text \<open>\<open>Read\<close> and \<open>Write\<close> look at the descriptor and the deadlines only.\<close>

lemma fd_wait_closed: "fd_wait (c\<lparr>fd_closed := b\<rparr>) events reading w = fd_wait c events reading w"
proof (induction "script w" arbitrary: w)
  case (Cons a as)
  have "wait_called (c\<lparr>fd_closed := b\<rparr>) events reading w = wait_called c events reading w"
    by (simp add: wait_called_def deadlineTimeout_def)
  with Cons show ?case
    using Cons.hyps(1) [of "wait_called c events reading w"]
    by (auto simp: fd_wait_Cons [OF Cons.hyps(2) [symmetric]] Cons.hyps(2) [symmetric]
        split: option.splits)
qed simp

section \<open>Properties\<close>

text \<open>C32: \<open>deadlineTimeout\<close> is right to the millisecond: it waits for ever exactly when no deadline
  is set, not at all exactly when the deadline has passed, and otherwise at least one
  millisecond, at most a millisecond less than the time that is left and never longer than that
  time rounded up to one millisecond.\<close>

theorem deadlineTimeout_bounds:
  assumes "(if reading then readDL c else writeDL c) = dl"
  shows "(deadlineTimeout c reading now = - 1 \<longleftrightarrow> dl = ZeroTime)
    \<and> (deadlineTimeout c reading now < 0 \<longrightarrow> dl = ZeroTime)
    \<and> (\<forall>t. dl = At t \<and> in_int64 (t - now) \<longrightarrow>
        (deadlineTimeout c reading now = 0 \<longleftrightarrow> t \<le> now)
        \<and> 0 \<le> deadlineTimeout c reading now
        \<and> (now < t \<longrightarrow> deadlineTimeout c reading now * 1000000 \<le> max 1000000 (t - now)
            \<and> t - now < (deadlineTimeout c reading now + 1) * 1000000))"
proof (cases dl)
  case ZeroTime
  with assms show ?thesis by (simp add: deadlineTimeout_def Let_def)
next
  case (At t)
  have nonneg: "0 \<le> deadlineTimeout c reading now"
    using assms At by (simp add: deadlineTimeout_def Let_def go_div_nonneg)
  define q r where "q = (t - now) div 1000000" and "r = (t - now) mod 1000000"
  have dt: "deadlineTimeout c reading now = (if t - now \<le> 0 then 0 else if q \<le> 0 then 1 else q)"
    if "in_int64 (t - now)"
    using assms At that by (simp add: deadlineTimeout_def Let_def time_sub_exact go_div_nonneg q_def)
  have "t - now = q * 1000000 + r" and "0 \<le> r" and "r < 1000000"
    by (simp_all add: q_def r_def)
  then have "in_int64 (t - now) \<longrightarrow>
      (deadlineTimeout c reading now = 0 \<longleftrightarrow> t \<le> now)
      \<and> (now < t \<longrightarrow> deadlineTimeout c reading now * 1000000 \<le> max 1000000 (t - now)
          \<and> t - now < (deadlineTimeout c reading now + 1) * 1000000)"
    using dt by (auto simp: max_def)
  with nonneg At show ?thesis by auto
qed

theorem deadlineTimeout_bounds_witness:
  "deadlineTimeout ((newFDConn 3)\<lparr>readDL := At 5000000\<rparr>) True 2500000 \<noteq> 0
    \<and> deadlineTimeout (newFDConn 3) False 2500000 = - 1"
  using deadlineTimeout_bounds [of True "(newFDConn 3)\<lparr>readDL := At 5000000\<rparr>" "At 5000000" 2500000]
    deadlineTimeout_bounds [of False "newFDConn 3" ZeroTime 2500000]
  by (simp add: in_int64_def min_int64_def max_int64_def newFDConn_def)

text \<open>C33: A \<open>poll\<close> that reports a hang-up makes \<open>Read\<close> fail at once even when it reports
  readable data too: the bytes that the peer had sent before it closed stay in the socket and
  are never delivered, and the caller sees an error where \<open>io.EOF\<close> would be due after the
  data.\<close>

theorem hangup_hides_data:
  assumes "script w = a # as" and "a_err a = None" and "0 < a_val a"
    and "a_re a AND POLLHUP \<noteq> 0"
  shows "\<exists>w'. fd_read c n w = Some (([], Some poll_error), w') \<and> inbox w' = inbox w"
proof -
  have "poll_failed (a_re a)"
  proof (rule ccontr)
    assume "\<not> poll_failed (a_re a)"
    then have "a_re a AND (POLLERR OR POLLHUP OR POLLNVAL) = 0"
      by (simp add: poll_failed_def)
    then have "a_re a AND (POLLERR OR POLLHUP OR POLLNVAL) AND POLLHUP = 0"
      by (simp add: and.assoc [symmetric])
    moreover have "(POLLERR OR POLLHUP OR POLLNVAL) AND POLLHUP = POLLHUP"
      by (simp add: POLLERR_def POLLHUP_def POLLNVAL_def)
    ultimately show False using assms(4) by simp
  qed
  then have "poll_verdict POLLIN a = Some (Inl poll_error)"
    using assms by (simp add: poll_verdict_def)
  then have "fd_wait c POLLIN True w = Some (Inl poll_error, wait_called c POLLIN True w)"
    by (simp add: fd_wait_Cons [OF assms(1)])
  then show ?thesis
    by (subst fd_read.simps) simp
qed

theorem hangup_hides_data_witness:
  "\<exists>w'. fd_read (newFDConn 3) 26
      \<lparr>script = [\<lparr>a_now = 0, a_ctx = None, a_err = None, a_val = 1, a_re = POLLIN OR POLLHUP\<rparr>],
       inbox = [1, 2, 3], outbox = [], trace = []\<rparr> = Some (([], Some poll_error), w')
    \<and> inbox w' = [1, 2, 3]"
  using hangup_hides_data
    [of "\<lparr>script = [\<lparr>a_now = 0, a_ctx = None, a_err = None, a_val = 1, a_re = POLLIN OR POLLHUP\<rparr>],
       inbox = [1, 2, 3], outbox = [], trace = []\<rparr>" _ "[]" "newFDConn 3" 26]
  by (simp add: POLLIN_def POLLHUP_def)

text \<open>C34: \<open>Read\<close> does not look at the \<open>closed\<close> flag: on a connection that has been closed it makes
  the same system calls, on the same descriptor number, as on an open one, and returns the same
  result, although that number may by then belong to another socket.\<close>

theorem read_after_close:
  "fd_read (c\<lparr>fd_closed := True\<rparr>) n w = fd_read c n w"
proof (induction "length (script w)" arbitrary: w rule: less_induct)
  case less
  show ?case
  proof (cases "fd_wait c POLLIN True w")
    case None
    then show ?thesis
      by (subst (1 2) fd_read.simps) (simp add: fd_wait_closed)
  next
    case (Some p)
    obtain r w1 where p: "p = (r, w1)" by (cases p)
    with Some have wait: "fd_wait c POLLIN True w = Some (r, w1)" by simp
    show ?thesis
    proof (cases "r")
      case (Inl err)
      then show ?thesis
        by (subst (1 2) fd_read.simps) (simp add: fd_wait_closed wait)
    next
      case (Inr u)
      then show ?thesis
        using less.hyps [of "called (SysRead (fd c) n) w1"] fd_wait_effect [OF wait]
        by (subst (1 2) fd_read.simps)
          (auto simp: fd_wait_closed wait split: list.splits option.splits)
    qed
  qed
qed

end
