(* ===== verification/Fd_Run.thy ===== *)
theory Fd_Run
  imports Fd_Conn
begin

text \<open>
  A connection of \<open>sctpkernel_linux.go\<close> used by any number of goroutines at once, as a step
  relation. The mutex \<open>mu\<close> of \<open>fdConn\<close> is held during \<open>Close\<close>, \<open>deadlineTimeout\<close> and the
  setting of a deadline, but not during a system call of \<open>Read\<close> and \<open>Write\<close>: their calls to
  \<open>poll\<close>, \<open>read\<close> and \<open>write\<close> are steps of their own, and a \<open>Close\<close> may come between any two.
  \<open>LocalAddr\<close> and \<open>RemoteAddr\<close> change no state and are left out.
\<close>

section \<open>Goroutines\<close>

datatype io_op = ReadOp nat | WriteOp bytes

fun op_events :: "io_op \<Rightarrow> u16" where
  "op_events (ReadOp n) = POLLIN"
| "op_events (WriteOp b) = POLLOUT"

fun op_reading :: "io_op \<Rightarrow> bool" where
  "op_reading (ReadOp n) = True"
| "op_reading (WriteOp b) = False"

text \<open>
  Where a goroutine is: in no method; before \<open>deadlineTimeout\<close>, before \<open>poll\<close> with the timeout
  it got, before \<open>read\<close> or \<open>write\<close>; before it gets the mutex in \<open>Close\<close>, before it looks at the
  flag, and before the system call.
\<close>

datatype fd_pc =
    Idle
  | Timing io_op
  | Polling io_op int
  | Calling io_op
  | LockClose
  | CloseLocked
  | CloseCall

type_synonym fd_local = "fd_conn \<times> world \<times> bool \<times> fd_pc"

text \<open>The third component tells whether the mutex is held.\<close>

inductive goroutine_step :: "fd_local \<Rightarrow> fd_local \<Rightarrow> bool" where
  call_io: "goroutine_step (c, w, mu, Idle) (c, w, mu, Timing opn)"
| timeout: "goroutine_step (c, w, False, Timing opn)
    (c, w, False, Polling opn (deadlineTimeout c (op_reading opn) now))"
| poll_again: "script w = a # as \<Longrightarrow> poll_verdict (op_events opn) a = None \<Longrightarrow>
    goroutine_step (c, w, mu, Polling opn ms) (c, called (SysPoll (fd c) (op_events opn) ms) w, mu, Timing opn)"
| poll_fails: "script w = a # as \<Longrightarrow> poll_verdict (op_events opn) a = Some (Inl err) \<Longrightarrow>
    goroutine_step (c, w, mu, Polling opn ms) (c, called (SysPoll (fd c) (op_events opn) ms) w, mu, Idle)"
| poll_ready: "script w = a # as \<Longrightarrow> poll_verdict (op_events opn) a = Some (Inr u) \<Longrightarrow>
    goroutine_step (c, w, mu, Polling opn ms) (c, called (SysPoll (fd c) (op_events opn) ms) w, mu, Calling opn)"
| read_again: "script w = a # as \<Longrightarrow> read_verdict n (inbox w) a = None \<Longrightarrow>
    goroutine_step (c, w, mu, Calling (ReadOp n)) (c, called (SysRead (fd c) n) w, mu, Timing (ReadOp n))"
| read_returns: "script w = a # as \<Longrightarrow> read_verdict n (inbox w) a = Some (bs, e) \<Longrightarrow>
    goroutine_step (c, w, mu, Calling (ReadOp n))
      (c, (called (SysRead (fd c) n) w)\<lparr>inbox := drop (length bs) (inbox w)\<rparr>, mu, Idle)"
| write_again: "script w = a # as \<Longrightarrow> write_verdict b a = None \<Longrightarrow>
    goroutine_step (c, w, mu, Calling (WriteOp b)) (c, called (SysWrite (fd c) b) w, mu, Timing (WriteOp b))"
| write_returns: "script w = a # as \<Longrightarrow> write_verdict b a = Some (k, e) \<Longrightarrow>
    goroutine_step (c, w, mu, Calling (WriteOp b))
      (c, (called (SysWrite (fd c) b) w)\<lparr>outbox := outbox w @ take k b\<rparr>, mu, Idle)"
| set_deadline: "goroutine_step (c, w, False, Idle) (SetDeadline t c, w, False, Idle)"
| set_read_deadline: "goroutine_step (c, w, False, Idle) (SetReadDeadline t c, w, False, Idle)"
| set_write_deadline: "goroutine_step (c, w, False, Idle) (SetWriteDeadline t c, w, False, Idle)"
| call_close: "goroutine_step (c, w, mu, Idle) (c, w, mu, LockClose)"
| lock_close: "goroutine_step (c, w, False, LockClose) (c, w, True, CloseLocked)"
| close_again: "fd_closed c \<Longrightarrow> goroutine_step (c, w, True, CloseLocked) (c, w, False, Idle)"
| close_first: "\<not> fd_closed c \<Longrightarrow>
    goroutine_step (c, w, True, CloseLocked) (c\<lparr>fd_closed := True\<rparr>, w, True, CloseCall)"
| close_call: "script w = a # as \<Longrightarrow>
    goroutine_step (c, w, True, CloseCall) (c, called (SysClose (fd c)) w, False, Idle)"

inductive_cases goroutine_stepE: "goroutine_step (c, w, mu, p) (c', w', mu', p')"

record fd_use =
  u_conn :: fd_conn
  u_world :: world
  u_mu :: bool
  u_pcs :: "fd_pc list"

inductive fd_use_step :: "fd_use \<Rightarrow> fd_use \<Rightarrow> bool" where
  "i < length (u_pcs s) \<Longrightarrow> goroutine_step (u_conn s, u_world s, u_mu s, u_pcs s ! i) (c, w, mu, p) \<Longrightarrow>
    fd_use_step s (s\<lparr>u_conn := c, u_world := w, u_mu := mu, u_pcs := (u_pcs s)[i := p]\<rparr>)"

text \<open>\<open>k\<close> goroutines that share a connection and are in no method of it.\<close>

definition idle_use :: "nat \<Rightarrow> fd_conn \<Rightarrow> world \<Rightarrow> fd_use" where
  "idle_use k c w = \<lparr>u_conn = c, u_world = w, u_mu = False, u_pcs = replicate k Idle\<rparr>"

section \<open>A method that runs undisturbed\<close>

text \<open>
  Without other goroutines these steps are the functions \<open>fd_read\<close>, \<open>fd_write\<close> and \<open>fd_close\<close>.
\<close>

lemma wait_steps:
  "fd_wait c (op_events opn) (op_reading opn) w = Some (r, w') \<Longrightarrow>
    goroutine_step\<^sup>*\<^sup>* (c, w, False, Timing opn) (c, w', False, case r of Inl e \<Rightarrow> Idle | Inr _ \<Rightarrow> Calling opn)"
proof (induction "script w" arbitrary: w)
  case (Cons a as)
  let ?ms = "deadlineTimeout c (op_reading opn) (a_now a)"
  have s: "script w = a # as" using Cons.hyps(2) by simp
  have w1: "wait_called c (op_events opn) (op_reading opn) w = called (SysPoll (fd c) (op_events opn) ?ms) w"
    by (simp add: wait_called_def s)
  have start: "goroutine_step (c, w, False, Timing opn) (c, w, False, Polling opn ?ms)"
    by (rule timeout)
  show ?case
  proof (cases "poll_verdict (op_events opn) a")
    case None
    with Cons.prems have "fd_wait c (op_events opn) (op_reading opn) (wait_called c (op_events opn) (op_reading opn) w) = Some (r, w')"
      by (simp add: fd_wait_Cons [OF s])
    from Cons.hyps(1) [OF _ this] s
    have rest: "goroutine_step\<^sup>*\<^sup>* (c, called (SysPoll (fd c) (op_events opn) ?ms) w, False, Timing opn)
        (c, w', False, case r of Inl e \<Rightarrow> Idle | Inr _ \<Rightarrow> Calling opn)"
      by (simp add: w1)
    from rest have "goroutine_step\<^sup>*\<^sup>* (c, w, False, Polling opn ?ms) (c, w', False, case r of Inl e \<Rightarrow> Idle | Inr _ \<Rightarrow> Calling opn)"
      by (rule converse_rtranclp_into_rtranclp [where r = goroutine_step, OF poll_again [OF s None]])
    with start show ?thesis
      by (rule converse_rtranclp_into_rtranclp)
  next
    case (Some v)
    with Cons.prems have r: "r = v" and w': "w' = called (SysPoll (fd c) (op_events opn) ?ms) w"
      by (simp_all add: fd_wait_Cons [OF s] w1)
    have "goroutine_step (c, w, False, Polling opn ?ms) (c, w', False, case r of Inl e \<Rightarrow> Idle | Inr _ \<Rightarrow> Calling opn)"
      using poll_fails [OF s] poll_ready [OF s] Some by (cases v) (simp_all add: r w')
    with start show ?thesis
      by (meson r_into_rtranclp rtranclp.rtrancl_into_rtrancl)
  qed
qed simp

lemma read_steps:
  "fd_read c n w = Some (r, w') \<Longrightarrow> goroutine_step\<^sup>*\<^sup>* (c, w, False, Timing (ReadOp n)) (c, w', False, Idle)"
proof (induction "length (script w)" arbitrary: w rule: less_induct)
  case less
  from less.prems obtain v w1 where wait: "fd_wait c POLLIN True w = Some (v, w1)"
    by (subst (asm) fd_read.simps) (auto split: option.splits)
  with wait_steps [of c "ReadOp n" w v w1]
  have to_w1: "goroutine_step\<^sup>*\<^sup>* (c, w, False, Timing (ReadOp n)) (c, w1, False, case v of Inl e \<Rightarrow> Idle | Inr _ \<Rightarrow> Calling (ReadOp n))"
    by simp
  show ?case
  proof (cases v)
    case (Inl err)
    with less.prems wait to_w1 show ?thesis by (subst (asm) fd_read.simps) auto
  next
    case (Inr u)
    with less.prems wait obtain a as where s: "script w1 = a # as"
      by (subst (asm) fd_read.simps) (auto split: list.splits)
    show ?thesis
    proof (cases "read_verdict n (inbox w1) a")
      case None
      with less.prems wait Inr s have "fd_read c n (called (SysRead (fd c) n) w1) = Some (r, w')"
        by (subst (asm) fd_read.simps) simp
      from less.hyps [OF _ this] fd_wait_effect [OF wait] s
      have "goroutine_step\<^sup>*\<^sup>* (c, called (SysRead (fd c) n) w1, False, Timing (ReadOp n)) (c, w', False, Idle)"
        by simp
      with to_w1 Inr read_again [OF s None, of c False] show ?thesis
        by (auto intro: rtranclp_trans converse_rtranclp_into_rtranclp)
    next
      case (Some p)
      obtain bs e where p: "p = (bs, e)" by (cases p)
      with less.prems wait Inr s Some
      have "w' = (called (SysRead (fd c) n) w1)\<lparr>inbox := drop (length bs) (inbox w1)\<rparr>"
        by (subst (asm) fd_read.simps) simp
      with to_w1 Inr read_returns [OF s, of n bs e c False] Some p show ?thesis
        by (auto intro: rtranclp.rtrancl_into_rtrancl)
    qed
  qed
qed

lemma write_steps:
  "fd_write c b w = Some (r, w') \<Longrightarrow> goroutine_step\<^sup>*\<^sup>* (c, w, False, Timing (WriteOp b)) (c, w', False, Idle)"
proof (induction "length (script w)" arbitrary: w rule: less_induct)
  case less
  from less.prems obtain v w1 where wait: "fd_wait c POLLOUT False w = Some (v, w1)"
    by (subst (asm) fd_write.simps) (auto split: option.splits)
  with wait_steps [of c "WriteOp b" w v w1]
  have to_w1: "goroutine_step\<^sup>*\<^sup>* (c, w, False, Timing (WriteOp b)) (c, w1, False, case v of Inl e \<Rightarrow> Idle | Inr _ \<Rightarrow> Calling (WriteOp b))"
    by simp
  show ?case
  proof (cases v)
    case (Inl err)
    with less.prems wait to_w1 show ?thesis by (subst (asm) fd_write.simps) auto
  next
    case (Inr u)
    with less.prems wait obtain a as where s: "script w1 = a # as"
      by (subst (asm) fd_write.simps) (auto split: list.splits)
    show ?thesis
    proof (cases "write_verdict b a")
      case None
      with less.prems wait Inr s have "fd_write c b (called (SysWrite (fd c) b) w1) = Some (r, w')"
        by (subst (asm) fd_write.simps) simp
      from less.hyps [OF _ this] fd_wait_effect [OF wait] s
      have "goroutine_step\<^sup>*\<^sup>* (c, called (SysWrite (fd c) b) w1, False, Timing (WriteOp b)) (c, w', False, Idle)"
        by simp
      with to_w1 Inr write_again [OF s None, of c False] show ?thesis
        by (auto intro: rtranclp_trans converse_rtranclp_into_rtranclp)
    next
      case (Some p)
      obtain k e where p: "p = (k, e)" by (cases p)
      with less.prems wait Inr s Some
      have "w' = (called (SysWrite (fd c) b) w1)\<lparr>outbox := outbox w1 @ take k b\<rparr>"
        by (subst (asm) fd_write.simps) simp
      with to_w1 Inr write_returns [OF s, of b k e c False] Some p show ?thesis
        by (auto intro: rtranclp.rtrancl_into_rtrancl)
    qed
  qed
qed

lemma close_steps:
  "fd_close c w = Some ((e, c'), w') \<Longrightarrow> goroutine_step\<^sup>*\<^sup>* (c, w, False, Idle) (c', w', False, Idle)"
proof -
  assume run: "fd_close c w = Some ((e, c'), w')"
  have lock: "goroutine_step\<^sup>*\<^sup>* (c, w, False, Idle) (c, w, True, CloseLocked)"
    by (meson call_close lock_close r_into_rtranclp rtranclp.rtrancl_into_rtrancl)
  show ?thesis
  proof (cases "fd_closed c")
    case True
    with run lock close_again [OF True, of w] show ?thesis
      by (auto simp: fd_close_def intro: rtranclp.rtrancl_into_rtrancl)
  next
    case False
    with run obtain a as where s: "script w = a # as" and c': "c' = c\<lparr>fd_closed := True\<rparr>"
      and w': "w' = called (SysClose (fd c)) w"
      by (auto simp: fd_close_def Let_def split: list.splits)
    note lock
    also have "goroutine_step (c, w, True, CloseLocked) (c', w, True, CloseCall)"
      unfolding c' by (rule close_first [OF False])
    also have "goroutine_step \<dots> (c', w', False, Idle)"
      using close_call [OF s, of c'] by (simp add: c' w')
    finally show ?thesis .
  qed
qed

section \<open>What the goroutines do to the descriptor\<close>

definition is_close :: "syscall \<Rightarrow> bool" where
  "is_close sc \<longleftrightarrow> (\<exists>n. sc = SysClose n)"

lemma is_close_simps [simp]:
  "is_close (SysClose n)" "\<not> is_close (SysPoll n ev t)" "\<not> is_close (SysRead n k)" "\<not> is_close (SysWrite n b)"
  by (simp_all add: is_close_def)

abbreviation closes :: "syscall list \<Rightarrow> syscall list" where
  "closes t \<equiv> filter is_close t"

text \<open>The calls a connection with descriptor \<open>n\<close> makes.\<close>

fun conn_call :: "int \<Rightarrow> syscall \<Rightarrow> bool" where
  "conn_call n (SysPoll m events t) = (m = n)"
| "conn_call n (SysRead m k) = (m = n)"
| "conn_call n (SysWrite m b) = (m = n)"
| "conn_call n (SysClose m) = (m = n)"
| "conn_call n _ = False"

definition conn_calls :: "int \<Rightarrow> world \<Rightarrow> world \<Rightarrow> syscall list \<Rightarrow> bool" where
  "conn_calls n w w' cl \<longleftrightarrow> (\<exists>cs. trace w' = trace w @ cs \<and> list_all (conn_call n) cs \<and> closes cs = cl)"

lemma conn_calls_refl [simp]: "conn_calls n w w []"
  by (simp add: conn_calls_def)

lemma conn_calls_called:
  "conn_calls n w v cl \<Longrightarrow> conn_call n sc \<Longrightarrow> conn_calls n w (called sc v) (cl @ closes [sc])"
  by (auto simp: conn_calls_def)

lemma conn_calls_update [simp]:
  "conn_calls n w (v\<lparr>inbox := i\<rparr>) cl = conn_calls n w v cl" "conn_calls n w (v\<lparr>outbox := ob\<rparr>) cl = conn_calls n w v cl"
  by (simp_all add: conn_calls_def)

section \<open>The mutex\<close>

fun in_close :: "fd_pc \<Rightarrow> bool" where
  "in_close CloseLocked = True"
| "in_close CloseCall = True"
| "in_close _ = False"

text \<open>
  At most one goroutine is inside \<open>Close\<close>, and only while the mutex is held; the system call is
  only made after the flag is set, by the one goroutine that has set it.
\<close>

definition mutex_inv :: "fd_use \<Rightarrow> bool" where
  "mutex_inv s \<longleftrightarrow>
     (\<forall>i < length (u_pcs s). in_close (u_pcs s ! i) \<longrightarrow> u_mu s)
     \<and> (\<forall>i < length (u_pcs s). \<forall>j < length (u_pcs s).
          in_close (u_pcs s ! i) \<and> in_close (u_pcs s ! j) \<longrightarrow> i = j)"

definition closing :: "fd_use \<Rightarrow> bool" where
  "closing s \<longleftrightarrow> (\<exists>i < length (u_pcs s). u_pcs s ! i = CloseCall)"

definition close_inv :: "int \<Rightarrow> world \<Rightarrow> fd_use \<Rightarrow> bool" where
  "close_inv n w s \<longleftrightarrow> fd (u_conn s) = n \<and> (closing s \<longrightarrow> fd_closed (u_conn s))
     \<and> conn_calls n w (u_world s) (if fd_closed (u_conn s) \<and> \<not> closing s then [SysClose n] else [])"

lemma goroutine_step_mutex:
  assumes "goroutine_step (c, w, mu, p) (c', w', mu', p')"
  shows "(in_close p' \<longrightarrow> mu') \<and> (\<not> in_close p \<and> in_close p' \<longrightarrow> \<not> mu)
    \<and> (mu \<noteq> mu' \<longrightarrow> in_close p \<noteq> in_close p')"
  using assms by (cases rule: goroutine_step.cases) auto

lemma mutex_inv_step:
  assumes "fd_use_step s s'" and "mutex_inv s"
  shows "mutex_inv s'"
  using assms
proof (induction rule: fd_use_step.induct)
  case (1 i s c w mu p)
  note step = goroutine_step_mutex [OF 1(2)]
  have held: "\<And>j. j < length (u_pcs s) \<Longrightarrow> in_close (u_pcs s ! j) \<Longrightarrow> u_mu s"
    and one: "\<And>j k. j < length (u_pcs s) \<Longrightarrow> k < length (u_pcs s) \<Longrightarrow> in_close (u_pcs s ! j) \<Longrightarrow>
      in_close (u_pcs s ! k) \<Longrightarrow> j = k"
    using 1(3) unfolding mutex_inv_def by blast+
  have other: "mu \<and> \<not> in_close p" if "j < length (u_pcs s)" "j \<noteq> i" "in_close (u_pcs s ! j)" for j
    using step held [OF that(1,3)] one [OF that(1) 1(1) that(3)] that(2) by blast
  have inside: "mu \<and> (j \<noteq> i \<longrightarrow> \<not> in_close p)"
    if "j < length (u_pcs s)" "in_close ((u_pcs s)[i := p] ! j)" for j
    using that step other [of j] 1(1) by (cases "j = i") simp_all
  show ?case unfolding mutex_inv_def
  proof (intro conjI allI impI)
    fix j k
    let ?u = "s\<lparr>u_conn := c, u_world := w, u_mu := mu, u_pcs := (u_pcs s)[i := p]\<rparr>"
    assume "j < length (u_pcs ?u)" "k < length (u_pcs ?u)" "in_close (u_pcs ?u ! j) \<and> in_close (u_pcs ?u ! k)"
    then have len: "j < length (u_pcs s)" "k < length (u_pcs s)"
      and J: "in_close ((u_pcs s)[i := p] ! j)" and K: "in_close ((u_pcs s)[i := p] ! k)"
      by simp_all
    note out = inside [OF len(1) J] inside [OF len(2) K]
    show "j = k"
    proof (rule ccontr)
      assume "j \<noteq> k"
      then consider "j = i" "k \<noteq> i" | "j \<noteq> i" "k = i" | "j \<noteq> i" "k \<noteq> i" "j \<noteq> k" by blast
      then show False
        using J K out one [OF len] 1(1) by cases (simp_all del: length_list_update)
    qed
  qed (use inside in simp)
qed

lemma closing_step:
  assumes "i < length (u_pcs s)" and "mutex_inv s"
  shows "closing (s\<lparr>u_conn := c, u_world := w, u_mu := mu, u_pcs := (u_pcs s)[i := p]\<rparr>)
    \<longleftrightarrow> p = CloseCall \<or> (closing s \<and> \<not> in_close (u_pcs s ! i))"
proof
  assume "closing (s\<lparr>u_conn := c, u_world := w, u_mu := mu, u_pcs := (u_pcs s)[i := p]\<rparr>)"
  then obtain j where j: "j < length (u_pcs s)" "(u_pcs s)[i := p] ! j = CloseCall"
    by (auto simp: closing_def)
  show "p = CloseCall \<or> (closing s \<and> \<not> in_close (u_pcs s ! i))"
  proof (cases "j = i")
    case True
    with j assms(1) show ?thesis by simp
  next
    case False
    with j have at: "u_pcs s ! j = CloseCall" by simp
    with False j(1) assms have "\<not> in_close (u_pcs s ! i)"
      unfolding mutex_inv_def by fastforce
    with at j(1) show ?thesis by (auto simp: closing_def)
  qed
next
  assume "p = CloseCall \<or> (closing s \<and> \<not> in_close (u_pcs s ! i))"
  then obtain j where "j < length (u_pcs s)" "(u_pcs s)[i := p] ! j = CloseCall"
  proof (elim disjE conjE)
    assume "p = CloseCall"
    with assms(1) that [of i] show thesis by simp
  next
    assume "closing s" and out: "\<not> in_close (u_pcs s ! i)"
    then obtain j where j: "j < length (u_pcs s)" "u_pcs s ! j = CloseCall"
      by (auto simp: closing_def)
    with out have "j \<noteq> i" by auto
    with j that [of j] show thesis by simp
  qed
  then show "closing (s\<lparr>u_conn := c, u_world := w, u_mu := mu, u_pcs := (u_pcs s)[i := p]\<rparr>)"
    by (auto simp: closing_def)
qed

lemma goroutine_step_effect:
  assumes "goroutine_step (c, w, mu, p) (c', w', mu', p')"
  shows "fd c' = fd c \<and> conn_calls (fd c) w w' (if p = CloseCall then [SysClose (fd c)] else [])
    \<and> (if p' = CloseCall then p = CloseLocked \<and> \<not> fd_closed c \<and> fd_closed c' else fd_closed c' = fd_closed c)"
  using assms
  by (cases rule: goroutine_step.cases)
    (auto simp: conn_calls_def SetDeadline_def SetReadDeadline_def SetWriteDeadline_def)

lemma conn_calls_trans:
  "conn_calls n u v cl \<Longrightarrow> conn_calls n v w cl' \<Longrightarrow> conn_calls n u w (cl @ cl')"
  by (auto simp: conn_calls_def)

lemma close_inv_step:
  assumes "fd_use_step s s'" and "mutex_inv s" and "close_inv n w0 s"
  shows "close_inv n w0 s'"
  using assms
proof (induction rule: fd_use_step.induct)
  case (1 i s c w mu p)
  let ?s' = "s\<lparr>u_conn := c, u_world := w, u_mu := mu, u_pcs := (u_pcs s)[i := p]\<rparr>"
  let ?q = "u_pcs s ! i"
  note eff = goroutine_step_effect [OF 1(2)]
  note closing' = closing_step [OF 1(1,3), where c = c and w = w and mu = mu and p = p]
  have at: "?q = CloseCall \<longrightarrow> closing s"
    using 1(1) by (auto simp: closing_def)
  have alone: "closing s \<and> in_close ?q \<longrightarrow> ?q = CloseCall"
    using 1(1,3) unfolding closing_def mutex_inv_def by fastforce
  from 1(4) have fd: "fd (u_conn s) = n" and flag: "closing s \<longrightarrow> fd_closed (u_conn s)"
    and calls: "conn_calls n w0 (u_world s) (if fd_closed (u_conn s) \<and> \<not> closing s then [SysClose n] else [])"
    by (auto simp: close_inv_def)
  from eff fd have calls': "conn_calls n w0 w ((if fd_closed (u_conn s) \<and> \<not> closing s then [SysClose n] else [])
      @ (if ?q = CloseCall then [SysClose n] else []))"
    by (intro conn_calls_trans [OF calls]) (auto split: if_splits)
  show ?case
  proof (cases "?q = CloseCall")
    case True
    with eff have "p \<noteq> CloseCall" by auto
    with True eff fd flag at calls' closing' show ?thesis
      by (simp add: close_inv_def)
  next
    case False
    then show ?thesis
      using eff fd flag alone calls' closing'
      by (cases "p = CloseCall"; cases "in_close ?q") (auto simp: close_inv_def)
  qed
qed

text \<open>The invariant of every run from a state in which no goroutine is in a method.\<close>

lemma fd_run_inv:
  assumes "fd_use_step\<^sup>*\<^sup>* (idle_use k c w) s" and "\<not> fd_closed c"
  shows "mutex_inv s \<and> close_inv (fd c) w s"
  using assms(1)
proof (induction rule: rtranclp_induct)
  case base
  show ?case
    using assms(2) by (simp add: idle_use_def mutex_inv_def close_inv_def closing_def)
next
  case (step s t)
  with mutex_inv_step close_inv_step show ?case by blast
qed

lemma fd_run_idle:
  assumes "fd_use_step\<^sup>*\<^sup>* (idle_use k c w) (idle_use k c' w')" and "\<not> fd_closed c"
  shows "fd c' = fd c \<and> conn_calls (fd c) w w' (if fd_closed c' then [SysClose (fd c)] else [])"
  using fd_run_inv [OF assms] by (auto simp: close_inv_def idle_use_def closing_def split: if_splits)

text \<open>A method that one goroutine runs while the others stay out is a run.\<close>

lemma lift_steps:
  assumes "goroutine_step\<^sup>*\<^sup>* (u_conn s, u_world s, u_mu s, u_pcs s ! i) l" and "i < length (u_pcs s)"
  shows "fd_use_step\<^sup>*\<^sup>* s (case l of (c, w, mu, p) \<Rightarrow>
    s\<lparr>u_conn := c, u_world := w, u_mu := mu, u_pcs := (u_pcs s)[i := p]\<rparr>)"
  using assms(1)
proof (induction rule: rtranclp_induct)
  case base
  show ?case using assms(2) by simp
next
  case (step l l')
  obtain c w mu p c' w' mu' p' where l: "l = (c, w, mu, p)" "l' = (c', w', mu', p')"
    by (cases l, cases l')
  let ?t = "s\<lparr>u_conn := c, u_world := w, u_mu := mu, u_pcs := (u_pcs s)[i := p]\<rparr>"
  from step.hyps(2) have "fd_use_step ?t (?t\<lparr>u_conn := c', u_world := w', u_mu := mu', u_pcs := (u_pcs ?t)[i := p']\<rparr>)"
    by (intro fd_use_step.intros) (simp_all add: assms(2) l)
  with step.IH show ?case
    by (simp add: l rtranclp.rtrancl_into_rtrancl)
qed

lemma alone_run:
  assumes "goroutine_step\<^sup>*\<^sup>* (c, w, False, Idle) (c', w', False, Idle)"
  shows "fd_use_step\<^sup>*\<^sup>* (idle_use 1 c w) (idle_use 1 c' w')"
  using lift_steps [of "idle_use 1 c w" 0 "(c', w', False, Idle)"] assms by (simp add: idle_use_def)

text \<open>C31: However many goroutines use a connection, whatever they call in whatever order, with
  their system calls interleaved in any way and answered in any way, the descriptor is passed to
  \<open>close\<close> at most once: exactly once when some \<open>Close\<close> has passed its test of the flag and made
  its call, and never before. So a second \<open>Close\<close>, also one that races with the first, cannot
  close a descriptor that the kernel has given to someone else. The other calls are polls, reads
  and writes of the descriptor, and nobody is between the test and the system call of \<open>Close\<close>
  without the mutex.\<close>

theorem fd_closed_once:
  assumes "fd_use_step\<^sup>*\<^sup>* (idle_use k (newFDConn n) w) s"
  shows "(\<exists>cs. trace (u_world s) = trace w @ cs \<and> list_all (conn_call n) cs
      \<and> closes cs = (if fd_closed (u_conn s) \<and> CloseCall \<notin> set (u_pcs s) then [SysClose n] else []))
    \<and> (CloseCall \<in> set (u_pcs s) \<longrightarrow> fd_closed (u_conn s) \<and> u_mu s)"
proof -
  from fd_run_inv [OF assms] have inv: "mutex_inv s" "close_inv n w s"
    by (simp_all add: newFDConn_def)
  have "CloseCall \<in> set (u_pcs s) \<longleftrightarrow> closing s"
    by (auto simp: closing_def in_set_conv_nth)
  moreover have "closing s \<longrightarrow> u_mu s"
    using inv(1) unfolding closing_def mutex_inv_def by fastforce
  ultimately show ?thesis
    using inv(2) by (auto simp: close_inv_def conn_calls_def)
qed

text \<open>Two goroutines: one closes the connection between the \<open>poll\<close> and the \<open>read\<close> of the other,
  which gets \<open>EBADF\<close> and then calls \<open>Close\<close> as well.\<close>

definition two_users :: "fd_conn \<Rightarrow> world \<Rightarrow> bool \<Rightarrow> fd_pc \<Rightarrow> fd_pc \<Rightarrow> fd_use" where
  "two_users c w mu p q = \<lparr>u_conn = c, u_world = w, u_mu = mu, u_pcs = [p, q]\<rparr>"

lemma first_user:
  "goroutine_step (c, w, mu, p) (c', w', mu', p') \<Longrightarrow> fd_use_step\<^sup>*\<^sup>* s (two_users c w mu p q) \<Longrightarrow>
    fd_use_step\<^sup>*\<^sup>* s (two_users c' w' mu' p' q)"
  using fd_use_step.intros [of 0 "two_users c w mu p q" c' w' mu' p']
  by (auto simp: two_users_def intro: rtranclp.rtrancl_into_rtrancl)

lemma second_user:
  "goroutine_step (c, w, mu, q) (c', w', mu', q') \<Longrightarrow> fd_use_step\<^sup>*\<^sup>* s (two_users c w mu p q) \<Longrightarrow>
    fd_use_step\<^sup>*\<^sup>* s (two_users c' w' mu' p q')"
  using fd_use_step.intros [of 1 "two_users c w mu p q" c' w' mu' q']
  by (auto simp: two_users_def intro: rtranclp.rtrancl_into_rtrancl)

definition kernel_answer :: "nat option \<Rightarrow> nat \<Rightarrow> u16 \<Rightarrow> answer" where
  "kernel_answer err val re = \<lparr>a_now = 0, a_ctx = None, a_err = err, a_val = val, a_re = re\<rparr>"

lemma racing_closes:
  assumes "c = newFDConn 7" and "c' = c\<lparr>fd_closed := True\<rparr>"
    and w: "w = \<lparr>script = [kernel_answer None 1 POLLIN, kernel_answer None 0 0, kernel_answer (Some 9) 0 0],
      inbox = [1, 2], outbox = [], trace = []\<rparr>"
    and w1: "w1 = called (SysPoll 7 POLLIN (- 1)) w"
    and w2: "w2 = called (SysClose 7) w1"
    and w3: "w3 = (called (SysRead 7 4) w2)\<lparr>inbox := inbox w2\<rparr>"
  shows "fd_use_step\<^sup>*\<^sup>* (idle_use 2 c w) (idle_use 2 c' w3)"
proof -
  have fds: "fd c = 7" "fd c' = 7" "\<not> fd_closed c" "fd_closed c'" "deadlineTimeout c True 0 = - 1"
    by (simp_all add: assms(1,2) newFDConn_def deadlineTimeout_def)
  have poll: "goroutine_step (c, w, mu, Polling (ReadOp 4) (- 1)) (c, w1, mu, Calling (ReadOp 4))" for mu
    using poll_ready [of w _ _ "ReadOp 4" "()" c mu "- 1"]
    by (simp add: w w1 fds kernel_answer_def poll_verdict_def poll_failed_def POLLIN_def POLLERR_def POLLHUP_def POLLNVAL_def)
  have close: "goroutine_step (c', w1, True, CloseCall) (c', w2, False, Idle)"
    using close_call [of w1 _ _ c'] by (simp add: w w1 w2 fds)
  have read: "goroutine_step (c', w2, mu, Calling (ReadOp 4)) (c', w3, mu, Idle)" for mu
    using read_returns [of w2 _ _ 4 "[]" "Some (Errno 9)" c' mu]
    by (simp add: w w1 w2 w3 fds kernel_answer_def read_verdict_def would_retry_def EINTR_def EAGAIN_def)
  have time: "goroutine_step (c, w, False, Timing (ReadOp 4)) (c, w, False, Polling (ReadOp 4) (- 1))"
    using timeout [of c w "ReadOp 4" 0] by (simp add: fds)
  have flag: "goroutine_step (c, w1, True, CloseLocked) (c', w1, True, CloseCall)"
    unfolding assms(2) by (rule close_first) (rule fds)
  let ?s = "two_users c w False Idle Idle"
  have "fd_use_step\<^sup>*\<^sup>* ?s (two_users c w False (Polling (ReadOp 4) (- 1)) Idle)"
    by (intro first_user [OF time] first_user [OF call_io] rtranclp.rtrancl_refl)
  then have "fd_use_step\<^sup>*\<^sup>* ?s (two_users c w1 True (Calling (ReadOp 4)) CloseLocked)"
    by (intro second_user [OF lock_close] second_user [OF call_close] first_user [OF poll])
  then have "fd_use_step\<^sup>*\<^sup>* ?s (two_users c' w2 False (Calling (ReadOp 4)) Idle)"
    by (intro second_user [OF close] second_user [OF flag])
  then have "fd_use_step\<^sup>*\<^sup>* ?s (two_users c' w3 True CloseLocked Idle)"
    by (intro first_user [OF lock_close] first_user [OF call_close] first_user [OF read])
  then have "fd_use_step\<^sup>*\<^sup>* ?s (two_users c' w3 False Idle Idle)"
    by (rule first_user [OF close_again [OF fds(4)]])
  then show ?thesis
    by (simp add: two_users_def idle_use_def numeral_2_eq_2)
qed

theorem fd_closed_once_witness:
  "\<exists>w s. fd_use_step\<^sup>*\<^sup>* (idle_use 2 (newFDConn 7) w) s \<and> trace w = [] \<and> inbox w = [1, 2]
     \<and> trace (u_world s) = [SysPoll 7 POLLIN (- 1), SysClose 7, SysRead 7 4]
     \<and> fd_closed (u_conn s) \<and> u_pcs s = [Idle, Idle] \<and> closes (trace (u_world s)) = [SysClose 7]"
proof -
  let ?w = "\<lparr>script = [kernel_answer None 1 POLLIN, kernel_answer None 0 0, kernel_answer (Some 9) 0 0],
      inbox = [1, 2], outbox = [], trace = []\<rparr>"
  let ?c' = "(newFDConn 7)\<lparr>fd_closed := True\<rparr>"
  let ?w2 = "called (SysClose 7) (called (SysPoll 7 POLLIN (- 1)) ?w)"
  let ?w3 = "(called (SysRead 7 4) ?w2)\<lparr>inbox := inbox ?w2\<rparr>"
  have run: "fd_use_step\<^sup>*\<^sup>* (idle_use 2 (newFDConn 7) ?w) (idle_use 2 ?c' ?w3)"
    by (rule racing_closes [OF refl refl refl refl refl refl])
  from fd_closed_once [OF this] have "closes (trace ?w3) = [SysClose 7]"
    by (simp add: idle_use_def)
  then show ?thesis
    by (intro exI [of _ ?w] exI [of _ "idle_use 2 ?c' ?w3"] conjI run)
      (simp_all add: idle_use_def numeral_2_eq_2)
qed

end
