(* ===== verification/Kernel_Channel.thy ===== *)
theory Kernel_Channel
  imports Fd_Conn Channel
begin

unbundle bit_operations_syntax

text \<open>
  \<open>Send\<close> and \<open>Recv\<close> of a channel of the kernel SCTP transport
  (\<open>pkg/transport/sctpkernel/sctpkernel_linux.go\<close>): the socket is a byte stream, and
  \<open>Recv\<close> cuts it into frames by reading the 26 bytes of a header and then the payload
  that the header announces. Both are functions of the connection, which is the socket
  itself or a TLS connection over it, of the deadline of the context and of the state.
  The session's read and write mutexes are held for the whole call, so a call is one
  atomic step with respect to other calls in the same direction.
\<close>

section \<open>The operations\<close>

text \<open>A timeout of the connection is reported as \<open>context.DeadlineExceeded\<close>.\<close>

definition chan_error :: "go_error \<Rightarrow> go_error" where
  "chan_error err = (if asserts_timeout err then DeadlineExceeded else err)"

partial_function (option) kernel_send_loop ::
  "'s writer \<Rightarrow> bytes \<Rightarrow> 's \<Rightarrow> (go_error option \<times> 's) option" where
  "kernel_send_loop wr payload s =
     (if 0 < length payload
      then case wr payload s of
          None \<Rightarrow> None
        | Some r \<Rightarrow>
            (case snd (fst r) of
               Some err \<Rightarrow> Some (Some (chan_error err), snd r)
             | None \<Rightarrow> kernel_send_loop wr (drop (fst (fst r)) payload) (snd r))
      else Some (None, s))"

definition kernel_send :: "'s net_conn \<Rightarrow> int option \<Rightarrow> bytes \<Rightarrow> 's \<Rightarrow> (go_error option \<times> 's) option" where
  "kernel_send nc dl payload s =
     kernel_send_loop (conn_write nc) payload (conn_set_write_deadline nc (ctx_deadline dl) s)"

definition kernel_recv :: "'s net_conn \<Rightarrow> int option \<Rightarrow> 's \<Rightarrow> ((go_error + bytes) \<times> 's) option" where
  "kernel_recv nc dl s =
     (case read_full (conn_read nc) 26 (conn_set_read_deadline nc (ctx_deadline dl) s) of
        None \<Rightarrow> None
      | Some ((header, Some err), s) \<Rightarrow> Some (Inl (chan_error err), s)
      | Some ((header, None), s) \<Rightarrow>
          let payloadLen = payload_len header;
              out = put_at 0 header (replicate (26 + payloadLen) 0)
          in if payloadLen = 0 then Some (Inr out, s)
             else case read_full (conn_read nc) (length out - 26) s of
                 None \<Rightarrow> None
               | Some ((body, Some err), s) \<Rightarrow> Some (Inl (chan_error err), s)
               | Some ((body, None), s) \<Rightarrow> Some (Inr (put_at 26 body out), s))"

text \<open>Repeated receives, as the loops of the server and of the load runner make them.\<close>

fun recv_each :: "'s net_conn \<Rightarrow> int option list \<Rightarrow> 's \<Rightarrow> ((go_error + bytes) list \<times> 's) option" where
  "recv_each nc [] s = Some ([], s)"
| "recv_each nc (dl # dls) s =
     (case kernel_recv nc dl s of
        None \<Rightarrow> None
      | Some (r, s) \<Rightarrow>
          (case recv_each nc dls s of
             None \<Rightarrow> None
           | Some (rs, s) \<Rightarrow> Some (r # rs, s)))"

section \<open>Receiving\<close>

text \<open>A connection whose deadlines do not change what is on its way.\<close>

locale net_source = byte_source "conn_read nc" pend ready
  for nc :: "'s net_conn" and pend :: "'s \<Rightarrow> bytes" and ready :: "nat \<Rightarrow> 's \<Rightarrow> bool" +
  assumes pend_deadline [simp]: "pend (conn_set_read_deadline nc t s) = pend s"
    and ready_deadline [simp]: "ready k (conn_set_read_deadline nc t s) = ready k s"
begin

lemma kernel_recv_taken:
  assumes "kernel_recv nc dl s = Some (r, s')"
  shows "\<exists>taken. pend s = taken @ pend s'
    \<and> (\<forall>out. r = Inr out \<longrightarrow> out = taken \<and> length out = 26 + payload_len (take 26 out))"
proof -
  let ?s0 = "conn_set_read_deadline nc (ctx_deadline dl) s"
  from assms obtain header e s1 where r1: "read_full (conn_read nc) 26 ?s0 = Some ((header, e), s1)"
    by (auto simp: kernel_recv_def split: option.splits)
  note f1 = read_full_front [OF r1]
  show ?thesis
  proof (cases e)
    case (Some err)
    with assms r1 f1 show ?thesis
      by (auto simp: kernel_recv_def)
  next
    case None
    let ?n = "payload_len header"
    have h: "length header = 26" and p0: "pend s = header @ pend s1"
      using f1 None by simp_all
    have out: "put_at 0 header (replicate (26 + ?n) 0) = header @ replicate ?n 0"
      using put_at_fill [of "[]" 0 header "26 + ?n" 0] h by simp
    show ?thesis
    proof (cases "?n = 0")
      case True
      with assms r1 None out h p0 show ?thesis
        by (auto simp: kernel_recv_def Let_def)
    next
      case False
      with assms r1 None out h obtain body e2 s2
        where r2: "read_full (conn_read nc) ?n s1 = Some ((body, e2), s2)"
        by (auto simp: kernel_recv_def Let_def split: option.splits)
      note f2 = read_full_front [OF r2]
      show ?thesis
      proof (cases e2)
        case (Some err)
        with assms r1 None out h r2 f2 False p0 show ?thesis
          by (auto simp: kernel_recv_def Let_def)
      next
        case None2: None
        then have b: "length body = ?n" using f2 by simp
        have "put_at 26 body (header @ replicate ?n 0) = header @ body"
          using put_at_fill [of header 26 body ?n 0] h b by simp
        with assms r1 None out h r2 False None2 have "r = Inr (header @ body)" and "s' = s2"
          by (auto simp: kernel_recv_def Let_def)
        with f2 h b p0 show ?thesis by simp
      qed
    qed
  qed
qed

lemma kernel_recv_message:
  assumes enc: "frame_encode f = Inr b" and pend: "pend s = b @ rest"
    and ready: "ready k s" and k: "length b \<le> k"
  shows "\<exists>s'. kernel_recv nc dl s = Some (Inr b, s') \<and> pend s' = rest \<and> ready (k - length b) s'"
proof -
  let ?s0 = "conn_set_read_deadline nc (ctx_deadline dl) s"
  let ?n = "payload_len (take 26 b)"
  have len: "length b = 26 + ?n"
    by (rule wire_stream.enc_length [OF enc])
  obtain s1 where r1: "read_full (conn_read nc) 26 ?s0 = Some ((take 26 b, None), s1)"
    and p1: "pend s1 = drop 26 b @ rest" and ready1: "ready (k - 26) s1"
    using read_full_ready [of k ?s0 26] pend ready k len by auto
  have out: "put_at 0 (take 26 b) (replicate (26 + ?n) 0) = take 26 b @ replicate ?n 0"
    using put_at_fill [of "[]" 0 "take 26 b" "26 + ?n" 0] len by simp
  show ?thesis
  proof (cases "?n = 0")
    case True
    with r1 out len p1 ready1 show ?thesis
      by (simp add: kernel_recv_def Let_def)
  next
    case False
    have "?n \<le> k - 26"
      using k len by simp
    from read_full_ready [OF ready1 this] obtain s2
      where r2: "read_full (conn_read nc) ?n s1 = Some ((drop 26 b, None), s2)"
      and p2: "pend s2 = rest" and ready2: "ready (k - 26 - ?n) s2"
      using p1 len by auto
    have "put_at 26 (drop 26 b) (take 26 b @ replicate ?n 0) = take 26 b @ drop 26 b"
      using put_at_fill [of "take 26 b" 26 "drop 26 b" ?n 0] len by simp
    with r1 out len r2 p2 ready2 False show ?thesis
      by (simp add: kernel_recv_def Let_def)
  qed
qed

lemma kernel_recv_failed:
  assumes enc: "frame_encode f = Inr b" and pend: "pend s = b @ rest"
    and recv: "kernel_recv nc dl s = Some (Inl err, s')"
  shows "\<exists>k < length b. pend s' = drop k b @ rest"
proof -
  let ?s0 = "conn_set_read_deadline nc (ctx_deadline dl) s"
  let ?n = "payload_len (take 26 b)"
  have len: "length b = 26 + ?n"
    by (rule wire_stream.enc_length [OF enc])
  have short: "\<exists>k < length b. pend t = drop k b @ rest"
    if "b @ rest = bs @ pend t" and "length bs < length b" for bs t
    using that by (intro exI [of _ "length bs"]) (auto simp: append_eq_append_conv2)
  from recv obtain header e s1 where r1: "read_full (conn_read nc) 26 ?s0 = Some ((header, e), s1)"
    by (auto simp: kernel_recv_def split: option.splits)
  note f1 = read_full_front [OF r1]
  show ?thesis
  proof (cases e)
    case (Some err1)
    with recv r1 have "s' = s1" by (simp add: kernel_recv_def)
    with f1 Some len pend show ?thesis by (intro short [of header s']) auto
  next
    case None
    with f1 have h: "length header = 26" and p0: "b @ rest = header @ pend s1"
      using pend by simp_all
    then have "take 26 (b @ rest) = header" by simp
    with len have hb: "header = take 26 b" by simp
    have n: "?n \<noteq> 0"
    proof
      assume "?n = 0"
      with recv r1 None hb show False by (simp add: kernel_recv_def Let_def)
    qed
    have out: "length (put_at 0 header (replicate (26 + ?n) 0)) - 26 = ?n"
      using h by (simp add: put_at_def)
    from recv r1 None out n obtain body e2 s2
      where r2: "read_full (conn_read nc) ?n s1 = Some ((body, e2), s2)"
      by (auto simp: kernel_recv_def Let_def hb split: option.splits)
    note f2 = read_full_front [OF r2]
    from recv r1 None out n r2 have "e2 \<noteq> None" and "s' = s2"
      by (auto simp: kernel_recv_def Let_def hb split: option.splits)
    with f2 h len p0 show ?thesis
      by (intro short [of "header @ body" s']) auto
  qed
qed

lemma recv_each_messages:
  assumes "map frame_encode fs = map Inr bs" and "length dls = length fs"
    and "pend s = concat bs @ rest" and "ready k s" and "length (concat bs) \<le> k"
  shows "\<exists>s'. recv_each nc dls s = Some (map Inr bs, s') \<and> pend s' = rest
    \<and> ready (k - length (concat bs)) s'"
  using assms
proof (induction dls arbitrary: fs bs s k)
  case (Cons dl dls)
  from Cons.prems obtain f fs' b bs' where fs: "fs = f # fs'" and bs: "bs = b # bs'"
    by (cases fs; cases bs) auto
  with Cons.prems have "\<exists>s1. kernel_recv nc dl s = Some (Inr b, s1) \<and> pend s1 = concat bs' @ rest
      \<and> ready (k - length b) s1"
    by (intro kernel_recv_message [of f]) simp_all
  then obtain s1 where r: "kernel_recv nc dl s = Some (Inr b, s1)"
    and p: "pend s1 = concat bs' @ rest" and ready1: "ready (k - length b) s1"
    by blast
  from Cons.prems have "length (concat bs') \<le> k - length b" by (simp add: bs)
  with Cons.IH [OF _ _ p ready1] Cons.prems obtain s'
    where "recv_each nc dls s1 = Some (map Inr bs', s')" and "pend s' = rest"
      and "ready (k - length b - length (concat bs')) s'"
    by (auto simp: fs bs)
  with r show ?case by (simp add: bs)
qed simp

end

interpretation fd_net: net_source fd_net_conn fd_pend "fd_ready j" for j
proof -
  have "conn_read fd_net_conn = fd_Read"
    by (simp add: fd_net_conn_def)
  then show "net_source fd_net_conn fd_pend (fd_ready j)"
    using fd_source.byte_source_axioms [of j]
    by unfold_locales (auto simp: fd_net_conn_def fd_pend_def fd_ready_def byte_source_def)
qed

section \<open>Sending\<close>

text \<open>The sending side: setting the write deadline changes neither what has been sent nor what
  the connection will accept.\<close>

locale net_sink = byte_sink "conn_write nc" sent wready
  for nc :: "'s net_conn" and sent :: "'s \<Rightarrow> bytes" and wready :: "nat \<Rightarrow> 's \<Rightarrow> bool" +
  assumes sent_deadline [simp]: "sent (conn_set_write_deadline nc t s) = sent s"
    and wready_deadline [simp]: "wready k (conn_set_write_deadline nc t s) = wready k s"
begin

lemma kernel_send_loop_front:
  assumes "kernel_send_loop (conn_write nc) payload s = Some (e, s')"
  shows "\<exists>n. n \<le> length payload \<and> sent s' = sent s @ take n payload \<and> (e = None \<longrightarrow> n = length payload)"
proof -
  let ?P = "\<lambda>wr' payload s r. wr' = conn_write nc \<longrightarrow>
    (\<exists>n. n \<le> length payload \<and> sent (snd r) = sent s @ take n payload
      \<and> (fst r = None \<longrightarrow> n = length payload))"
  have "?P (conn_write nc) payload s (e, s')"
  proof (rule kernel_send_loop.raw_induct [where P = ?P, OF _ assms], intro impI)
    fix f wr' payload s r
    assume IH: "\<And>wr' payload s r. f wr' payload s = Some r \<Longrightarrow> ?P wr' payload s r"
      and eq: "(if 0 < length payload
        then case wr' payload s of None \<Rightarrow> None
          | Some r \<Rightarrow> (case snd (fst r) of Some err \<Rightarrow> Some (Some (chan_error err), snd r)
              | None \<Rightarrow> f wr' (drop (fst (fst r)) payload) (snd r))
        else Some (None, s)) = Some r"
      and wr': "wr' = conn_write nc"
    show "\<exists>n. n \<le> length payload \<and> sent (snd r) = sent s @ take n payload
      \<and> (fst r = None \<longrightarrow> n = length payload)"
    proof (cases "payload = []")
      case True
      with eq show ?thesis by auto
    next
      case False
      with eq obtain k e' s1 where w1: "conn_write nc payload s = Some ((k, e'), s1)"
        by (auto simp: wr' split: option.splits)
      note front = write_front [OF w1]
      show ?thesis
      proof (cases e')
        case (Some err)
        with eq False w1 front show ?thesis by (auto simp: wr')
      next
        case None
        with eq False w1 have "f (conn_write nc) (drop k payload) s1 = Some r"
          by (simp add: wr')
        from IH [OF this] obtain n where n: "n \<le> length payload - k"
          "sent (snd r) = sent s1 @ take n (drop k payload)" "fst r = None \<longrightarrow> n = length payload - k"
          by auto
        with front show ?thesis
          by (intro exI [of _ "k + n"]) (auto simp: take_add)
      qed
    qed
  qed
  then show ?thesis by simp
qed

lemma kernel_send_loop_ready:
  "wready k s \<Longrightarrow> length payload \<le> k \<Longrightarrow>
    \<exists>s'. kernel_send_loop (conn_write nc) payload s = Some (None, s') \<and> wready (k - length payload) s'"
proof (induction "length payload" arbitrary: payload s k rule: less_induct)
  case less
  show ?case
  proof (cases "payload = []")
    case True
    with less.prems show ?thesis by (subst kernel_send_loop.simps) simp
  next
    case False
    then have "0 < k" using less.prems(2) by (cases payload) simp_all
    from write_ready [OF less.prems(1) this False] obtain n s1
      where w1: "conn_write nc payload s = Some ((n, None), s1)" and n: "0 < n" and r1: "wready (k - n) s1"
      by blast
    have le: "n \<le> length payload"
      using write_front [OF w1] by simp
    have "\<exists>s'. kernel_send_loop (conn_write nc) (drop n payload) s1 = Some (None, s')
        \<and> wready (k - n - length (drop n payload)) s'"
      using False n le less.prems(2) by (intro less.hyps [OF _ r1]) simp_all
    then show ?thesis
      using False w1 le by (subst kernel_send_loop.simps) simp
  qed
qed

lemma kernel_send_front:
  assumes "kernel_send nc dl payload s = Some (e, s')"
  shows "\<exists>n. n \<le> length payload \<and> sent s' = sent s @ take n payload \<and> (e = None \<longrightarrow> n = length payload)"
  using kernel_send_loop_front [OF assms [unfolded kernel_send_def]] by simp

lemma kernel_send_ready:
  assumes "wready k s" and "length payload \<le> k"
  shows "\<exists>s'. kernel_send nc dl payload s = Some (None, s') \<and> sent s' = sent s @ payload
    \<and> wready (k - length payload) s'"
proof -
  let ?s0 = "conn_set_write_deadline nc (ctx_deadline dl) s"
  obtain s' where "kernel_send_loop (conn_write nc) payload ?s0 = Some (None, s')"
    and "wready (k - length payload) s'"
    using kernel_send_loop_ready [of k ?s0 payload] assms by auto
  then show ?thesis
    using kernel_send_loop_front [of payload ?s0 None s'] by (auto simp: kernel_send_def)
qed

end

interpretation fd_out: net_sink fd_net_conn fd_sent fd_wready
proof -
  have "conn_write fd_net_conn = fd_Write"
    by (simp add: fd_net_conn_def)
  then show "net_sink fd_net_conn fd_sent fd_wready"
    using fd_sink.byte_sink_axioms
    by unfold_locales (auto simp: fd_net_conn_def fd_sent_def fd_wready_def byte_sink_def)
qed

section \<open>The channel\<close>

text \<open>The kernel channel: \<open>OpenChannel\<close> gives it the number it is asked for.\<close>

definition kernel_channel :: "'s net_conn \<Rightarrow> u16 \<Rightarrow> 's channel" where
  "kernel_channel nc n = \<lparr>ch_ID = n, ch_Send = kernel_send nc, ch_Recv = kernel_recv nc\<rparr>"

lemma kernel_channel_simps [simp]:
  "ch_ID (kernel_channel nc n) = n" "ch_Send (kernel_channel nc n) = kernel_send nc"
  "ch_Recv (kernel_channel nc n) = kernel_recv nc"
  by (simp_all add: kernel_channel_def)

lemma kernel_send_loop_rel:
  assumes step: "\<And>b s r s'. wr b s = Some (r, s') \<Longrightarrow> R s s'"
    and rt: "\<And>s. R s s" "\<And>s t u. R s t \<Longrightarrow> R t u \<Longrightarrow> R s u"
    and send: "kernel_send_loop wr b s = Some (e, s')"
  shows "R s s'"
proof -
  let ?P = "\<lambda>wr' b s r. wr' = wr \<longrightarrow> R s (snd r)"
  have "?P wr b s (e, s')"
  proof (rule kernel_send_loop.raw_induct [where P = ?P, OF _ send], intro impI)
    fix f wr' and b :: bytes and s r
    assume IH: "\<And>wr' b s r. f wr' b s = Some r \<Longrightarrow> ?P wr' b s r"
      and eq: "(if 0 < length b
        then case wr' b s of None \<Rightarrow> None
          | Some r \<Rightarrow> (case snd (fst r) of Some err \<Rightarrow> Some (Some (chan_error err), snd r)
              | None \<Rightarrow> f wr' (drop (fst (fst r)) b) (snd r))
        else Some (None, s)) = Some r"
      and wr': "wr' = wr"
    show "R s (snd r)"
    proof (cases "b = []")
      case True
      with eq rt(1) show ?thesis by auto
    next
      case False
      with eq obtain q where wr1: "wr b s = Some q"
        by (auto simp: wr' split: option.splits)
      then have "R s (snd q)"
        using step [of _ s "fst q" "snd q"] by simp
      moreover have "R (snd q) (snd r)"
        using eq False wr1 rt(1) IH [of wr "drop (fst (fst q)) b" "snd q" r]
        by (auto simp: wr' split: option.splits)
      ultimately show ?thesis by (rule rt(2))
    qed
  qed
  then show ?thesis by simp
qed

lemma fd_net_conn_simps [simp]:
  "conn_read fd_net_conn = fd_Read" "conn_write fd_net_conn = fd_Write"
  "conn_set_read_deadline fd_net_conn t s = (SetReadDeadline t (fst s), snd s)"
  "conn_set_write_deadline fd_net_conn t s = (SetWriteDeadline t (fst s), snd s)"
  by (simp_all add: fd_net_conn_def map_prod_def split_beta)

lemma read_full_frame: "read_full fd_Read n s = Some (r, s') \<Longrightarrow> recv_frame s s'"
  by (rule read_full_rel [where R = recv_frame and rd = fd_Read, rotated 3])
    (assumption | erule fd_Read_frame | rule frame_refl | erule (1) frame_trans)+

lemma kernel_send_frame:
  assumes "kernel_send fd_net_conn dl b s = Some (e, s')"
  shows "send_frame s s'"
proof -
  from assms have "kernel_send_loop fd_Write b (SetWriteDeadline (ctx_deadline dl) (fst s), snd s) = Some (e, s')"
    by (simp add: kernel_send_def)
  then have "send_frame (SetWriteDeadline (ctx_deadline dl) (fst s), snd s) s'"
    by (rule kernel_send_loop_rel [where R = send_frame and wr = fd_Write, rotated 3])
      (erule fd_Write_frame | rule frame_refl | erule (1) frame_trans)+
  then show ?thesis by (simp add: send_frame_def)
qed

lemma kernel_recv_frame:
  assumes "kernel_recv fd_net_conn dl s = Some (r, s')"
  shows "recv_frame s s'"
proof -
  let ?s0 = "(SetReadDeadline (ctx_deadline dl) (fst s), snd s)"
  have "recv_frame ?s0 s'"
    using assms
    by (auto simp: kernel_recv_def Let_def split: option.splits if_splits
        dest!: read_full_frame) (meson frame_trans(1))+
  then show ?thesis by (simp add: recv_frame_def)
qed

text \<open>
  A deadline of the kernel transport acts through the answers of \<open>poll\<close>, which are in the
  script: a connection that is \<open>fd_up\<close> leaves time for every call.
\<close>

interpretation kernel: message_channel "kernel_channel fd_net_conn n" fd_sent fd_pend fd_up "\<lambda>_ _ _. True" "\<lambda>b. b" for n
proof unfold_locales
  fix k s f dl and b :: bytes
  assume up: "fd_up k s" and len: "length b \<le> k"
  then have "fd_wready k s"
    by (auto simp: fd_up_def fd_wready_def serves_duplex)
  from fd_out.kernel_send_ready [OF this len] obtain s'
    where send: "kernel_send fd_net_conn dl b s = Some (None, s')"
      and sent: "fd_sent s' = fd_sent s @ b" and ready: "fd_wready (k - length b) s'"
    by blast
  with kernel_send_frame [OF send] up
  show "\<exists>s'. ch_Send (kernel_channel fd_net_conn n) dl b s = Some (None, s') \<and> fd_sent s' = fd_sent s @ b
      \<and> fd_pend s' = fd_pend s \<and> fd_up (k - length b) s' \<and> (\<forall>d j. True \<longrightarrow> True)"
    by (auto simp: send_frame_def fd_pend_def fd_up_def fd_wready_def serves_duplex dest: duplex_rest)
next
  fix k s f b rest dl
  assume up: "fd_up k s" and enc: "frame_encode f = Inr b" and pend: "fd_pend s = b @ rest"
    and len: "length b \<le> k"
  from up pend len have "fd_ready (k - length b) (length b) s"
    by (simp add: fd_up_def fd_ready_def fd_pend_def)
  from fd_net.kernel_recv_message [OF enc pend this order.refl, of dl] obtain s'
    where recv: "kernel_recv fd_net_conn dl s = Some (Inr b, s')" and "fd_pend s' = rest"
      and "fd_ready (k - length b) 0 s'"
    by (metis diff_self_eq_0)
  with kernel_recv_frame [OF recv] up
  show "\<exists>s'. ch_Recv (kernel_channel fd_net_conn n) dl s = Some (Inr b, s') \<and> fd_sent s' = fd_sent s
      \<and> fd_pend s' = rest \<and> fd_up (k - length b) s' \<and> (\<forall>d j. True \<longrightarrow> True)"
    by (auto simp: recv_frame_def fd_sent_def fd_up_def fd_ready_def dest: duplex_rest)
qed simp

section \<open>Properties\<close>

text \<open>A script in which every poll succeeds at once and every read or write moves \<open>m\<close> bytes.\<close>

definition smooth :: "u16 \<Rightarrow> nat \<Rightarrow> nat \<Rightarrow> answer list" where
  "smooth events m k = concat (replicate k
     [\<lparr>a_now = 0, a_ctx = None, a_err = None, a_val = 1, a_re = events\<rparr>,
      \<lparr>a_now = 0, a_ctx = None, a_err = None, a_val = m, a_re = 0\<rparr>])"

lemma smooth_serves:
  "0 < m \<Longrightarrow> events \<noteq> 0 \<Longrightarrow> \<not> poll_failed events \<Longrightarrow> serves events k (smooth events m k)"
  by (induction k) (simp_all add: smooth_def poll_verdict_def)

lemma smooth_in_out [simp]:
  "0 < m \<Longrightarrow> serves POLLIN k (smooth POLLIN m k)"
  "0 < m \<Longrightarrow> serves POLLOUT k (smooth POLLOUT m k)"
  by (auto intro!: smooth_serves simp: poll_failed_def POLLIN_def POLLOUT_def POLLERR_def POLLHUP_def
      POLLNVAL_def)

text \<open>A script on which both directions make progress.\<close>

lemma smooth_up:
  assumes "0 < m"
  shows "fd_up k (c, \<lparr>script = smooth (POLLIN OR POLLOUT) m k, inbox = i, outbox = t, trace = u\<rparr>)"
proof -
  have re: "\<not> poll_failed (POLLIN OR POLLOUT)" "POLLIN OR POLLOUT AND POLLIN \<noteq> 0"
    "POLLIN OR POLLOUT AND POLLOUT \<noteq> 0" "(POLLIN OR POLLOUT) AND POLLIN \<noteq> 0"
    "(POLLIN OR POLLOUT) AND POLLOUT \<noteq> 0" "\<not> poll_failed 0"
    by (simp_all add: poll_failed_def POLLIN_def POLLOUT_def POLLERR_def POLLHUP_def POLLNVAL_def)
  have "serves POLLIN k (smooth (POLLIN OR POLLOUT) m k)"
    using assms re by (induction k) (simp_all add: smooth_def poll_verdict_def)
  moreover have "list_all duplex (smooth (POLLIN OR POLLOUT) m k)"
    using assms re by (induction k) (simp_all add: smooth_def duplex_def poll_verdict_def)
  ultimately show ?thesis by (simp add: fd_up_def)
qed

text \<open>C3: The kernel transport keeps message boundaries on a byte stream: frames that were sent one
  after the other are received one by one, complete and in order, however the kernel cuts the
  stream into reads and however often polls are interrupted, and the bytes behind them are left
  for the next receive.\<close>

theorem kernel_recv_in_order:
  assumes "map frame_encode fs = map Inr bs" and "length dls = length fs"
    and "inbox w = concat bs @ rest" and "serves POLLIN (length (concat bs)) (script w)"
  shows "\<exists>s'. recv_each fd_net_conn dls (c, w) = Some (map Inr bs, s') \<and> inbox (snd s') = rest
    \<and> map frame_decode bs = map Inr fs"
proof -
  have "\<exists>s'. recv_each fd_net_conn dls (c, w) = Some (map Inr bs, s') \<and> fd_pend s' = rest
      \<and> fd_ready 0 (length (concat bs) - length (concat bs)) s'"
    using assms by (intro fd_net.recv_each_messages) (simp_all add: fd_pend_def fd_ready_def)
  moreover have "map frame_decode bs = map Inr fs"
    using assms(1)
  proof (induction fs arbitrary: bs)
    case (Cons f fs)
    then show ?case by (cases bs) (auto dest: wire.dec_enc_exact)
  qed simp
  ultimately show ?thesis by (auto simp: fd_pend_def)
qed

theorem kernel_recv_in_order_witness:
  "\<exists>s'. recv_each fd_net_conn [None, Some 9] (newFDConn 3,
        \<lparr>script = smooth POLLIN 5 53,
         inbox = frame_header \<lparr>MsgType = 1, SeqID = 1, SendTSNS = 0, ChannelID = 0, Payload = [7]\<rparr> 1 @ [7]
           @ frame_header \<lparr>MsgType = 1, SeqID = 2, SendTSNS = 0, ChannelID = 0, Payload = []\<rparr> 0 @ [1, 2],
         outbox = [], trace = []\<rparr>)
      = Some (map Inr
          [frame_header \<lparr>MsgType = 1, SeqID = 1, SendTSNS = 0, ChannelID = 0, Payload = [7]\<rparr> 1 @ [7],
           frame_header \<lparr>MsgType = 1, SeqID = 2, SendTSNS = 0, ChannelID = 0, Payload = []\<rparr> 0], s')
    \<and> inbox (snd s') = [1, 2]"
  using kernel_recv_in_order
    [of "[\<lparr>MsgType = 1, SeqID = 1, SendTSNS = 0, ChannelID = 0, Payload = [7]\<rparr>,
          \<lparr>MsgType = 1, SeqID = 2, SendTSNS = 0, ChannelID = 0, Payload = []\<rparr>]"
        "[frame_header \<lparr>MsgType = 1, SeqID = 1, SendTSNS = 0, ChannelID = 0, Payload = [7]\<rparr> 1 @ [7],
          frame_header \<lparr>MsgType = 1, SeqID = 2, SendTSNS = 0, ChannelID = 0, Payload = []\<rparr> 0]"
        "[None, Some 9]"
        "\<lparr>script = smooth POLLIN 5 53,
         inbox = frame_header \<lparr>MsgType = 1, SeqID = 1, SendTSNS = 0, ChannelID = 0, Payload = [7]\<rparr> 1 @ [7]
           @ frame_header \<lparr>MsgType = 1, SeqID = 2, SendTSNS = 0, ChannelID = 0, Payload = []\<rparr> 0 @ [1, 2],
         outbox = [], trace = []\<rparr>" "[1, 2]" "newFDConn 3"]
  by (auto simp: frame_encode_layout encodable_def)

text \<open>C28: \<open>Recv\<close> never invents, drops or reorders bytes: whatever happens, it has taken exactly a
  front part of the stream; a message it returns is that part, as long as its header says, and
  if it decodes to a frame it is the encoding of that frame.\<close>

theorem kernel_recv_exact:
  assumes "kernel_recv fd_net_conn dl (c, w) = Some (r, (c', w'))"
  shows "\<exists>taken. inbox w = taken @ inbox w'
    \<and> (\<forall>out. r = Inr out \<longrightarrow> out = taken \<and> length out = 26 + payload_len (take 26 out)
        \<and> (\<forall>f. frame_decode out = Inr f \<longrightarrow> frame_encode f = Inr out))"
proof -
  from fd_net.kernel_recv_taken [OF assms] obtain taken where tk: "inbox w = taken @ inbox w'"
    and out: "\<And>out. r = Inr out \<Longrightarrow> out = taken \<and> length out = 26 + payload_len (take 26 out)"
    by (auto simp: fd_pend_def)
  have "frame_encode f = Inr out" if "r = Inr out" and dec: "frame_decode out = Inr f" for out f
  proof -
    from wire.enc_dec [OF dec] obtain b rest where enc: "frame_encode f = Inr b" and "out = b @ rest"
      by blast
    moreover have "length out = 26 + payload_len (take 26 out)"
      using out [OF that(1)] by blast
    ultimately have "length (b @ rest) = length b"
      using wire_stream.cut_first [OF enc, of rest] by (simp only:)
    with enc \<open>out = b @ rest\<close> show ?thesis by simp
  qed
  with tk out show ?thesis by blast
qed

theorem kernel_recv_exact_witness:
  "\<exists>b c' w'. kernel_recv fd_net_conn (Some 9) (newFDConn 3,
        \<lparr>script = smooth POLLIN 5 27, inbox = b @ [1, 2], outbox = [], trace = []\<rparr>) = Some (Inr b, (c', w'))
      \<and> inbox w' = [1, 2] \<and> length b = 27 \<and> length b = 26 + payload_len (take 26 b)
      \<and> frame_decode b = Inr \<lparr>MsgType = 1, SeqID = 1, SendTSNS = 0, ChannelID = 0, Payload = [7]\<rparr>
      \<and> frame_encode \<lparr>MsgType = 1, SeqID = 1, SendTSNS = 0, ChannelID = 0, Payload = [7]\<rparr> = Inr b"
proof -
  let ?f = "\<lparr>MsgType = 1, SeqID = 1, SendTSNS = 0, ChannelID = 0, Payload = [7]\<rparr>"
  let ?b = "frame_header ?f 1 @ [7]"
  let ?w = "\<lparr>script = smooth POLLIN 5 27, inbox = ?b @ [1, 2], outbox = [], trace = []\<rparr>"
  have enc: "frame_encode ?f = Inr ?b" and len: "length ?b = 27"
    by (simp_all add: frame_encode_layout encodable_def)
  have dec: "frame_decode ?b = Inr ?f"
    by (rule wire.dec_enc_exact [OF enc])
  have "fd_pend (newFDConn 3, ?w) = ?b @ [1, 2]" and "fd_ready 0 27 (newFDConn 3, ?w)"
    using len by (simp_all add: fd_pend_def fd_ready_def)
  from fd_net.kernel_recv_message [OF enc this, of "Some 9"] len
  obtain c' w' where run: "kernel_recv fd_net_conn (Some 9) (newFDConn 3, ?w) = Some (Inr ?b, (c', w'))"
    by auto
  from kernel_recv_exact [OF run] dec
  have "?b @ [1, 2] = ?b @ inbox w'" and "length ?b = 26 + payload_len (take 26 ?b)" and "frame_encode ?f = Inr ?b"
    by auto
  with run len dec show ?thesis
    by (intro exI [of _ ?b] exI [of _ c'] exI [of _ w']) simp
qed

text \<open>A \<open>Recv\<close> that fails in the middle of a frame, for example because its deadline passed,
  discards the part of the frame it had read: the stream then starts inside that frame.\<close>

theorem kernel_recv_failure_position:
  assumes "frame_encode f = Inr b" and "inbox w = b @ rest"
    and "kernel_recv fd_net_conn dl (c, w) = Some (Inl err, (c', w'))"
  shows "\<exists>k < length b. inbox w' = drop k b @ rest"
  using fd_net.kernel_recv_failed [OF assms(1) _ assms(3)] assms(2) by (simp add: fd_pend_def)

text \<open>C30: After a \<open>Recv\<close> that lost between one and four bytes of a frame the channel is out of
  step: the next message that \<open>Recv\<close> returns cannot be decoded, whatever the frame was and
  whatever the peer sent behind it.\<close>

theorem kernel_recv_desync:
  assumes "frame_encode f = Inr b" and "inbox w = drop k b @ rest" and "1 \<le> k" and "k \<le> 4"
    and "kernel_recv fd_net_conn dl (c, w) = Some (Inr out, s')"
  shows "\<exists>e. frame_decode out = Inl e"
proof (cases "frame_decode out")
  case (Inr g)
  obtain c' w' where "s' = (c', w')" by (cases s')
  with fd_net.kernel_recv_taken [OF assms(5)] have front: "drop k b @ rest = out @ inbox w'"
    using assms(2) by (auto simp: fd_pend_def)
  from assms(1) have b: "b = frame_header f (length (Payload f)) @ Payload f"
    by (simp add: frame_encode_Inr_iff)
  from frame_decode_Inr [OF Inr] obtain r where "out = frame_header g (length (Payload g)) @ r"
    by auto
  with front b have "hd (drop k (frame_header f (length (Payload f)))) = hd (frame_header g (length (Payload g)))"
  proof -
    have "drop k (frame_header f n) \<noteq> []" for n
      using assms(4) by simp
    moreover have "frame_header g n \<noteq> []" for n
      using length_frame_header [of g n] by fastforce
    ultimately show ?thesis
      using arg_cong [OF front, of hd] assms(4) b \<open>out = _\<close> by (simp add: hd_append2)
  qed
  moreover have "hd (frame_header g n) = 0x4D" for n
    by (simp add: frame_header_def be_put_Magic)
  moreover have "hd (drop k (frame_header f n)) \<noteq> 0x4D" for n
  proof -
    have "k \<in> {1, 2, 3, 4}" using assms(3,4) by auto
    then show ?thesis
      by (auto simp: frame_header_def be_put_Magic Version_def)
  qed
  ultimately show ?thesis by simp
qed auto

theorem kernel_recv_desync_witness:
  "\<exists>e. frame_decode [0x47, 1, 1, 0, 0, 0, 0, 0, 0, 0, 0, 0, 0, 0, 0, 0, 0, 0, 0, 0, 0, 0, 0, 9, 0, 0] = Inl e"
proof -
  let ?b = "[0x4D, 0x35, 0x47, 0x47, 1, 1, 0, 0, 0, 0, 0, 0, 0, 0, 0, 0, 0, 0, 0, 0, 0, 0, 0, 0, 0, 0] :: bytes"
  let ?out = "[0x47, 1, 1, 0, 0, 0, 0, 0, 0, 0, 0, 0, 0, 0, 0, 0, 0, 0, 0, 0, 0, 0, 0, 9, 0, 0] :: bytes"
  let ?f = "\<lparr>MsgType = 1, SeqID = 0, SendTSNS = 0, ChannelID = 0, Payload = []\<rparr>"
  let ?p = "\<lparr>a_now = 0, a_ctx = None, a_err = None, a_val = 1, a_re = POLLIN\<rparr>"
  let ?r = "\<lparr>a_now = 0, a_ctx = None, a_err = None, a_val = 26, a_re = 0\<rparr>"
  let ?c = "SetReadDeadline ZeroTime (newFDConn 3)"
  let ?w0 = "\<lparr>script = [?p, ?r], inbox = ?out, outbox = [], trace = []\<rparr>"
  let ?w1 = "(called (SysRead 3 26) (called (SysPoll 3 POLLIN (-1)) ?w0))\<lparr>inbox := []\<rparr>"
  have "frame_decode ?b = Inr ?f"
    by (simp add: frame_decode_def Let_def Magic_def Version_def be_get_def be_nat_def subslice_def)
  then have enc: "frame_encode ?f = Inr ?b"
    using frame_encode_of_decode by fastforce
  have nf: "\<not> poll_failed POLLIN" "POLLIN \<noteq> 0"
    by (simp_all add: poll_failed_def POLLIN_def POLLERR_def POLLHUP_def POLLNVAL_def)
  have "fd_read ?c 26 ?w0 = Some ((?out, None), ?w1)"
    by (subst fd_read.simps, subst fd_wait.simps)
      (simp add: poll_verdict_def nf wait_called_def read_verdict_def Let_def newFDConn_def
        SetReadDeadline_def deadlineTimeout_def)
  moreover have "payload_len ?out = 0"
    by (simp add: payload_len_def subslice_def be_get_def be_nat_def)
  ultimately have "kernel_recv fd_net_conn None (newFDConn 3, ?w0) = Some (Inr ?out, (?c, ?w1))"
    by (simp add: kernel_recv_def read_full_def read_loop.simps [of fd_Read] fd_net_conn_def fd_Read_def
        ctx_deadline_def put_at_def)
  from kernel_recv_desync [OF enc _ _ _ this, of 3 "[9, 0, 0]"] show ?thesis
    by simp
qed

text \<open>\<open>Send\<close> writes its message in order and, unless it reports an error, completely: what it
  leaves in the socket is a front part of the message, the whole of it on success, and nothing
  that was written before is touched.\<close>

theorem kernel_send_prefix:
  assumes "kernel_send fd_net_conn dl payload (c, w) = Some (e, s')"
  shows "\<exists>n. n \<le> length payload \<and> outbox (snd s') = outbox w @ take n payload
    \<and> (e = None \<longrightarrow> n = length payload)"
  using fd_out.kernel_send_front [OF assms] by (simp add: fd_sent_def)

text \<open>C29: \<open>Send\<close> finishes: as long as the kernel keeps accepting bytes, in pieces of any size and
  after any number of interrupted or spurious polls, the call returns without an error and the
  whole message has been written.\<close>

theorem kernel_send_completes:
  assumes "serves POLLOUT (length payload) (script w)"
  shows "\<exists>s'. kernel_send fd_net_conn dl payload (c, w) = Some (None, s')
    \<and> outbox (snd s') = outbox w @ payload"
  using fd_out.kernel_send_ready [of "length payload" "(c, w)" payload dl] assms
  by (auto simp: fd_wready_def fd_sent_def)

theorem kernel_send_completes_witness:
  "\<exists>s'. kernel_send fd_net_conn (Some 3) [4, 5, 6, 7] (newFDConn 3,
        \<lparr>script = smooth POLLOUT 3 4, inbox = [], outbox = [], trace = []\<rparr>) = Some (None, s')
    \<and> outbox (snd s') = [4, 5, 6, 7]"
proof -
  let ?w = "\<lparr>script = smooth POLLOUT 3 4, inbox = [], outbox = [], trace = []\<rparr>"
  have "length [4, 5, 6, 7 :: byte] = 4" by simp
  then have "serves POLLOUT (length [4, 5, 6, 7 :: byte]) (script ?w)"
    by (simp only:) simp
  from kernel_send_completes [OF this] show ?thesis by auto
qed

end
