(* ===== verification/Quic.thy ===== *)
theory Quic
  imports Kernel_Channel
begin

text \<open>
  \<open>Send\<close> and \<open>Recv\<close> of the QUIC transport (\<open>pkg/transport/quic/quic.go\<close>). The stream belongs
  to the package \<open>quic-go\<close>, which is not part of the repository: it is an argument, and the
  locale \<open>duplex_stream\<close> states the behaviour of a reliable ordered byte stream that the code
  relies on. A message is written as four bytes of length followed by its bytes.
\<close>

section \<open>The operations\<close>

text \<open>The methods of \<open>*quic.Stream\<close> that the channel calls.\<close>

record 's stream =
  st_read :: "'s reader"
  st_write :: "'s writer"
  st_set_read_deadline :: "go_time \<Rightarrow> 's \<Rightarrow> go_error option \<times> 's"
  st_set_write_deadline :: "go_time \<Rightarrow> 's \<Rightarrow> go_error option \<times> 's"

definition maxQUICFrameSize :: nat where
  "maxQUICFrameSize = 16 * 1024 * 1024"

definition setReadDeadline :: "'s stream \<Rightarrow> int option \<Rightarrow> 's \<Rightarrow> go_error option \<times> 's" where
  "setReadDeadline st dl s =
     (case dl of Some d \<Rightarrow> st_set_read_deadline st (At d) s
      | None \<Rightarrow> st_set_read_deadline st ZeroTime s)"

definition setWriteDeadline :: "'s stream \<Rightarrow> int option \<Rightarrow> 's \<Rightarrow> go_error option \<times> 's" where
  "setWriteDeadline st dl s =
     (case dl of Some d \<Rightarrow> st_set_write_deadline st (At d) s
      | None \<Rightarrow> st_set_write_deadline st ZeroTime s)"

definition quic_send :: "'s stream \<Rightarrow> int option \<Rightarrow> bytes \<Rightarrow> 's \<Rightarrow> (go_error option \<times> 's) option" where
  "quic_send st dl payload s =
     (if maxQUICFrameSize < length payload
      then Some (Some (Errorf ''payload too large: %d'' [int (length payload)] []), s)
      else
        case setWriteDeadline st dl s of
          (Some err, s) \<Rightarrow> Some (Some err, s)
        | (None, s) \<Rightarrow>
            let header = be_put 4 (of_nat (length payload) :: u32)
            in case write_all (st_write st) header s of
                 None \<Rightarrow> None
               | Some ((_, Some err), s) \<Rightarrow> Some (Some err, s)
               | Some ((_, None), s) \<Rightarrow>
                   (case write_all (st_write st) payload s of
                      None \<Rightarrow> None
                    | Some ((_, Some err), s) \<Rightarrow> Some (Some err, s)
                    | Some ((_, None), s) \<Rightarrow> Some (None, s)))"

definition quic_recv :: "'s stream \<Rightarrow> int option \<Rightarrow> 's \<Rightarrow> ((go_error + bytes) \<times> 's) option" where
  "quic_recv st dl s =
     (case setReadDeadline st dl s of
        (Some err, s) \<Rightarrow> Some (Inl err, s)
      | (None, s) \<Rightarrow>
          (case read_full (st_read st) 4 s of
             None \<Rightarrow> None
           | Some ((header, Some err), s) \<Rightarrow> Some (Inl err, s)
           | Some ((header, None), s) \<Rightarrow>
               let size = be_get header :: u32
               in if maxQUICFrameSize < unat size
                  then Some (Inl (Errorf ''incoming payload too large: %d'' [uint size] []), s)
                  else case read_full (st_read st) (unat size) s of
                      None \<Rightarrow> None
                    | Some ((buf, Some err), s) \<Rightarrow> Some (Inl err, s)
                    | Some ((buf, None), s) \<Rightarrow> Some (Inr buf, s)))"

definition quic_channel :: "'s stream \<Rightarrow> u16 \<Rightarrow> 's channel" where
  "quic_channel st n = \<lparr>ch_ID = n, ch_Send = quic_send st, ch_Recv = quic_recv st\<rparr>"

lemma quic_channel_simps [simp]:
  "ch_ID (quic_channel st n) = n" "ch_Send (quic_channel st n) = quic_send st"
  "ch_Recv (quic_channel st n) = quic_recv st"
  by (simp_all add: quic_channel_def)

text \<open>How a message is written on the stream.\<close>

definition quic_frame :: "bytes \<Rightarrow> bytes" where
  "quic_frame b = be_put 4 (of_nat (length b) :: u32) @ b"

lemma length_quic_frame [simp]: "length (quic_frame b) = 4 + length b"
  by (simp add: quic_frame_def)

lemma quic_size:
  "length b \<le> maxQUICFrameSize \<Longrightarrow> unat (be_get (be_put 4 (of_nat (length b) :: u32)) :: u32) = length b"
  by (simp add: be_get_be_put unat_of_nat maxQUICFrameSize_def)

text \<open>An encoded frame is far below the limit.\<close>

lemma frame_below_limit: "frame_encode f = Inr b \<Longrightarrow> length b \<le> maxQUICFrameSize"
  by (auto simp: frame_encode_Inr_iff encodable_def maxQUICFrameSize_def)

section \<open>The stream\<close>

text \<open>
  What the channel relies on. \<open>pend\<close> is what the peer has written and nobody has read,
  \<open>sent\<close> what has been written; a read takes a front part of the one, a write appends a front
  part of its argument to the other, and neither touches the other direction. \<open>rdl\<close> and \<open>wdl\<close>
  are the deadlines of the two directions, and \<open>ahead t k s\<close> says that the next \<open>k\<close> calls return
  before \<open>t\<close>; no call is too late when there is no deadline. While the stream is \<open>up\<close> for \<open>k\<close>
  calls, the network and the peer let the next \<open>k\<close> calls succeed and move at least one byte, a
  read if there is one to move: a call does so if it returns before the deadline of its
  direction, and a call that does not may fail. Setting a deadline, past or future, succeeds and
  changes nothing else.
\<close>

locale duplex_stream =
  fixes st :: "'s stream" and pend sent :: "'s \<Rightarrow> bytes" and up :: "nat \<Rightarrow> 's \<Rightarrow> bool"
    and rdl wdl :: "'s \<Rightarrow> go_time" and ahead :: "go_time \<Rightarrow> nat \<Rightarrow> 's \<Rightarrow> bool"
  assumes st_read_front: "st_read st n s = Some ((bs, e), s') \<Longrightarrow>
      length bs \<le> n \<and> pend s = bs @ pend s' \<and> sent s' = sent s \<and> rdl s' = rdl s \<and> wdl s' = wdl s
        \<and> (\<forall>t k. ahead t (Suc k) s \<longrightarrow> ahead t k s')"
    and st_write_front: "st_write st b s = Some ((n, e), s') \<Longrightarrow>
      n \<le> length b \<and> sent s' = sent s @ take n b \<and> pend s' = pend s \<and> rdl s' = rdl s \<and> wdl s' = wdl s
        \<and> (\<forall>t k. ahead t (Suc k) s \<longrightarrow> ahead t k s')"
    and st_read_up: "up (Suc k) s \<Longrightarrow> ahead (rdl s) 1 s \<Longrightarrow> 0 < n \<Longrightarrow> pend s \<noteq> [] \<Longrightarrow>
      \<exists>bs s'. st_read st n s = Some ((bs, None), s') \<and> bs \<noteq> [] \<and> up k s'"
    and st_write_up: "up (Suc k) s \<Longrightarrow> ahead (wdl s) 1 s \<Longrightarrow> b \<noteq> [] \<Longrightarrow>
      \<exists>n s'. st_write st b s = Some ((n, None), s') \<and> 0 < n \<and> up k s'"
    and up_less: "up k s \<Longrightarrow> j \<le> k \<Longrightarrow> up j s"
    and ahead_less: "ahead t k s \<Longrightarrow> j \<le> k \<Longrightarrow> ahead t j s"
    and ahead_ZeroTime: "ahead ZeroTime k s"
    and st_read_deadline: "\<exists>s'. st_set_read_deadline st t s = (None, s') \<and> pend s' = pend s
        \<and> sent s' = sent s \<and> rdl s' = t \<and> wdl s' = wdl s
        \<and> (\<forall>k. up k s \<longrightarrow> up k s') \<and> (\<forall>d k. ahead d k s \<longrightarrow> ahead d k s')"
    and st_write_deadline: "\<exists>s'. st_set_write_deadline st t s = (None, s') \<and> pend s' = pend s
        \<and> sent s' = sent s \<and> rdl s' = rdl s \<and> wdl s' = t
        \<and> (\<forall>k. up k s \<longrightarrow> up k s') \<and> (\<forall>d k. ahead d k s \<longrightarrow> ahead d k s')"
begin

text \<open>
  The time that is left: \<open>after n s s'\<close> says that what holds of the next \<open>n + k\<close> calls in \<open>s\<close>
  holds of the next \<open>k\<close> calls in \<open>s'\<close>.
\<close>

definition after :: "nat \<Rightarrow> 's \<Rightarrow> 's \<Rightarrow> bool" where
  "after n s s' \<longleftrightarrow> (\<forall>t k. ahead t (n + k) s \<longrightarrow> ahead t k s') \<and> (\<forall>k. up (n + k) s \<longrightarrow> up k s')"

lemma after_trans: "after m s t \<Longrightarrow> after n t u \<Longrightarrow> after (m + n) s u"
  by (simp add: after_def add.assoc)

lemma after_less: "after m s s' \<Longrightarrow> m \<le> n \<Longrightarrow> after n s s'"
  unfolding after_def by (meson add_le_mono1 ahead_less up_less)

lemma after_refl: "after n s s"
  by (rule after_less [of 0]) (simp_all add: after_def)

text \<open>
  The state after some calls of a loop that began in \<open>s0\<close> and moves \<open>n\<close> bytes, \<open>k\<close> of them
  still to come, each in a call of its own at worst.
\<close>

definition during :: "'s \<Rightarrow> nat \<Rightarrow> nat \<Rightarrow> 's \<Rightarrow> bool" where
  "during s0 n k s \<longleftrightarrow> k \<le> n \<and> after (n - k) s0 s \<and> rdl s = rdl s0 \<and> wdl s = wdl s0"

lemma during_step:
  assumes "during s0 n k s" and "0 < k" and "after 1 s s'" and "rdl s' = rdl s" and "wdl s' = wdl s" and "0 < m"
  shows "during s0 n (k - m) s'"
proof -
  have "after (n - k + 1) s0 s'"
    using after_trans [of "n - k" s0 s 1 s'] assms(1,3) by (simp add: during_def)
  then have "after (n - (k - m)) s0 s'"
    by (rule after_less) (use assms in \<open>unfold during_def, linarith\<close>)
  then show ?thesis
    using assms(1,4,5) by (auto simp: during_def intro: le_trans [OF diff_le_self])
qed

lemma during_ready:
  assumes "during s0 n k s" and "0 < k" and "up n s0" and "ahead t n s0"
  shows "up k s \<and> ahead t 1 s"
proof -
  have "up (n - k + k) s0" and "ahead t (n - k + k) s0"
    using assms by (simp_all add: during_def)
  then have "up k s" and "ahead t k s"
    using assms(1) by (auto simp: during_def after_def)
  with ahead_less [of t k s 1] assms(2) show ?thesis by simp
qed

lemma read_after:
  assumes "st_read st n s = Some ((bs, None), s')" and "0 < n" and "pend s \<noteq> []" and "ahead (rdl s) 1 s"
  shows "after 1 s s'"
proof -
  have "up k s'" if "up (Suc k) s" for k
    using st_read_up [OF that assms(4,2,3)] assms(1) by auto
  with st_read_front [OF assms(1)] show ?thesis
    by (simp add: after_def)
qed

lemma write_after:
  assumes "st_write st b s = Some ((n, None), s')" and "b \<noteq> []" and "ahead (wdl s) 1 s"
  shows "after 1 s s'"
proof -
  have "up k s'" if "up (Suc k) s" for k
    using st_write_up [OF that assms(3,2)] assms(1) by auto
  with st_write_front [OF assms(1)] show ?thesis
    by (simp add: after_def)
qed

definition readable :: "'s \<Rightarrow> nat \<Rightarrow> nat \<Rightarrow> 's \<Rightarrow> bool" where
  "readable s0 n k s \<longleftrightarrow> k \<le> length (pend s) \<and> during s0 n k s \<and> up n s0 \<and> ahead (rdl s0) n s0"

definition writable :: "'s \<Rightarrow> nat \<Rightarrow> nat \<Rightarrow> 's \<Rightarrow> bool" where
  "writable s0 n k s \<longleftrightarrow> during s0 n k s \<and> up n s0 \<and> ahead (wdl s0) n s0"

lemma source: "byte_source (st_read st) pend (readable s0 m)"
proof
  fix n s bs e s'
  assume "st_read st n s = Some ((bs, e), s')"
  then show "length bs \<le> n \<and> pend s = bs @ pend s'"
    using st_read_front by blast
next
  fix k s n
  assume ready: "readable s0 m k s" and k: "0 < k" and n: "0 < (n :: nat)"
  then have here: "during s0 m k s" and some: "pend s \<noteq> []" "k \<le> length (pend s)"
    and rdl: "rdl s = rdl s0" and start: "up m s0" "ahead (rdl s0) m s0"
    by (auto simp: readable_def during_def)
  from during_ready [OF here k start] have up: "up (Suc (k - 1)) s" and time: "ahead (rdl s) 1 s"
    using k rdl by simp_all
  obtain bs s' where rd: "st_read st n s = Some ((bs, None), s')" "bs \<noteq> []"
    using st_read_up [OF up time n some(1)] by blast
  have "during s0 m (k - length bs) s'"
    using during_step [OF here k read_after [OF rd(1) n some(1) time]] st_read_front [OF rd(1)] rd(2) by simp
  moreover have "k - length bs \<le> length (pend s')"
    using st_read_front [OF rd(1)] some(2) by simp
  ultimately show "\<exists>bs s'. st_read st n s = Some ((bs, None), s') \<and> bs \<noteq> [] \<and> readable s0 m (k - length bs) s'"
    using rd start by (auto simp: readable_def)
qed

lemma sink: "byte_sink (st_write st) sent (writable s0 m)"
proof
  fix b s n e s'
  assume "st_write st b s = Some ((n, e), s')"
  then show "n \<le> length b \<and> sent s' = sent s @ take n b"
    using st_write_front by blast
next
  fix k s and b :: bytes
  assume ready: "writable s0 m k s" and k: "0 < k" and b: "b \<noteq> []"
  then have here: "during s0 m k s" and wdl: "wdl s = wdl s0" and start: "up m s0" "ahead (wdl s0) m s0"
    by (auto simp: writable_def during_def)
  from during_ready [OF here k start] have up: "up (Suc (k - 1)) s" and time: "ahead (wdl s) 1 s"
    using k wdl by simp_all
  obtain n s' where wr: "st_write st b s = Some ((n, None), s')" "0 < n"
    using st_write_up [OF up time b] by blast
  have "during s0 m (k - n) s'"
    using during_step [OF here k write_after [OF wr(1) b time]] st_write_front [OF wr(1)] wr(2) by simp
  with wr start show "\<exists>n s'. st_write st b s = Some ((n, None), s') \<and> 0 < n \<and> writable s0 m (k - n) s'"
    by (auto simp: writable_def)
qed

lemma read_exact:
  assumes "up n s" and "ahead (rdl s) n s" and "pend s = b @ rest" and "length b = n"
  shows "\<exists>s'. read_full (st_read st) n s = Some ((b, None), s') \<and> pend s' = rest \<and> sent s' = sent s
    \<and> rdl s' = rdl s \<and> wdl s' = wdl s \<and> after n s s'"
proof -
  have "readable s n n s"
    using assms by (simp add: readable_def during_def after_refl)
  from byte_source.read_full_ready [OF source this order.refl] assms(3,4) obtain s'
    where rd: "read_full (st_read st) n s = Some ((b, None), s')" and "pend s' = rest"
      and "readable s n 0 s'"
    by auto
  moreover have "sent s' = sent s"
    by (rule read_full_rel [where R = "\<lambda>s s'. sent s' = sent s", rotated 3, OF rd])
      (use st_read_front in force)+
  ultimately show ?thesis
    by (auto simp: readable_def during_def)
qed

lemma write_exact:
  assumes "up (length b) s" and "ahead (wdl s) (length b) s"
  shows "\<exists>s'. write_all (st_write st) b s = Some ((length b, None), s') \<and> sent s' = sent s @ b
    \<and> pend s' = pend s \<and> rdl s' = rdl s \<and> wdl s' = wdl s \<and> after (length b) s s'"
proof -
  have "writable s (length b) (length b) s"
    using assms by (simp add: writable_def during_def after_refl)
  from byte_sink.write_all_ready [OF sink this order.refl] obtain s'
    where wr: "write_all (st_write st) b s = Some ((length b, None), s')" and "sent s' = sent s @ b"
      and "writable s (length b) 0 s'"
    by auto
  moreover have "pend s' = pend s"
    by (rule write_all_rel [where R = "\<lambda>s s'. pend s' = pend s", rotated 3, OF wr])
      (use st_write_front in force)+
  ultimately show ?thesis
    by (auto simp: writable_def during_def)
qed

lemma read_deadline_set:
  "\<exists>s'. setReadDeadline st dl s = (None, s') \<and> pend s' = pend s \<and> sent s' = sent s
    \<and> rdl s' = ctx_deadline dl \<and> wdl s' = wdl s \<and> after 0 s s'"
proof -
  have "setReadDeadline st dl s = st_set_read_deadline st (ctx_deadline dl) s"
    by (simp add: setReadDeadline_def ctx_deadline_def split: option.split)
  with st_read_deadline [of "ctx_deadline dl" s] show ?thesis
    by (auto simp: after_def)
qed

lemma write_deadline_set:
  "\<exists>s'. setWriteDeadline st dl s = (None, s') \<and> pend s' = pend s \<and> sent s' = sent s
    \<and> rdl s' = rdl s \<and> wdl s' = ctx_deadline dl \<and> after 0 s s'"
proof -
  have "setWriteDeadline st dl s = st_set_write_deadline st (ctx_deadline dl) s"
    by (simp add: setWriteDeadline_def ctx_deadline_def split: option.split)
  with st_write_deadline [of "ctx_deadline dl" s] show ?thesis
    by (auto simp: after_def)
qed

lemma after_up: "after n s s' \<Longrightarrow> up k s \<Longrightarrow> n + j \<le> k \<Longrightarrow> up j s'"
  unfolding after_def using up_less by blast

lemma after_ahead: "after n s s' \<Longrightarrow> ahead t k s \<Longrightarrow> n + j \<le> k \<Longrightarrow> ahead t j s'"
  unfolding after_def using ahead_less by blast

lemma quic_send_ok:
  assumes "up (length (quic_frame b)) s" and "length b \<le> maxQUICFrameSize"
    and "ahead (ctx_deadline dl) (length (quic_frame b)) s"
  shows "\<exists>s'. quic_send st dl b s = Some (None, s') \<and> sent s' = sent s @ quic_frame b
    \<and> pend s' = pend s \<and> after (length (quic_frame b)) s s'"
proof -
  let ?h = "be_put 4 (of_nat (length b) :: u32)"
  obtain s0 where s0: "setWriteDeadline st dl s = (None, s0)" "pend s0 = pend s" "sent s0 = sent s"
    "wdl s0 = ctx_deadline dl" "after 0 s s0"
    using write_deadline_set by blast
  have "up (length ?h) s0" "ahead (wdl s0) (length ?h) s0"
    using after_up [OF s0(5) assms(1)] after_ahead [OF s0(5) assms(3)] s0(4) by simp_all
  from write_exact [OF this] obtain s1
    where s1: "write_all (st_write st) ?h s0 = Some ((4, None), s1)" "sent s1 = sent s0 @ ?h"
      "pend s1 = pend s0" "wdl s1 = wdl s0" "after 4 s0 s1"
    by auto
  from after_trans [OF s0(5) s1(5)] have s_s1: "after 4 s s1" by simp
  have "up (length b) s1" "ahead (wdl s1) (length b) s1"
    using after_up [OF s_s1 assms(1)] after_ahead [OF s_s1 assms(3)] s0(4) s1(4) by simp_all
  from write_exact [OF this] obtain s2
    where s2: "write_all (st_write st) b s1 = Some ((length b, None), s2)" "sent s2 = sent s1 @ b"
      "pend s2 = pend s1" "after (length b) s1 s2"
    by blast
  from after_trans [OF s_s1 s2(4)] s0 s1 s2 assms(2) show ?thesis
    by (simp add: quic_send_def Let_def quic_frame_def)
qed

lemma quic_recv_ok:
  assumes "up (length (quic_frame b)) s" and "length b \<le> maxQUICFrameSize"
    and "ahead (ctx_deadline dl) (length (quic_frame b)) s" and "pend s = quic_frame b @ rest"
  shows "\<exists>s'. quic_recv st dl s = Some (Inr b, s') \<and> sent s' = sent s \<and> pend s' = rest
    \<and> after (length (quic_frame b)) s s'"
proof -
  let ?h = "be_put 4 (of_nat (length b) :: u32)"
  obtain s0 where s0: "setReadDeadline st dl s = (None, s0)" "pend s0 = pend s" "sent s0 = sent s"
    "rdl s0 = ctx_deadline dl" "after 0 s s0"
    using read_deadline_set by blast
  have "up 4 s0" "ahead (rdl s0) 4 s0" "pend s0 = ?h @ (b @ rest)" "length ?h = 4"
    using after_up [OF s0(5) assms(1)] after_ahead [OF s0(5) assms(3)] s0(2,4) assms(4)
    by (simp_all add: quic_frame_def)
  from read_exact [OF this] obtain s1
    where s1: "read_full (st_read st) 4 s0 = Some ((?h, None), s1)" "pend s1 = b @ rest"
      "sent s1 = sent s0" "rdl s1 = rdl s0" "after 4 s0 s1"
    by blast
  from after_trans [OF s0(5) s1(5)] have s_s1: "after 4 s s1" by simp
  have "up (length b) s1" "ahead (rdl s1) (length b) s1"
    using after_up [OF s_s1 assms(1)] after_ahead [OF s_s1 assms(3)] s0(4) s1(4) by simp_all
  from read_exact [OF this s1(2) refl] obtain s2
    where s2: "read_full (st_read st) (length b) s1 = Some ((b, None), s2)" "pend s2 = rest"
      "sent s2 = sent s1" "after (length b) s1 s2"
    by blast
  from after_trans [OF s_s1 s2(4)] s0 s1 s2 quic_size [OF assms(2)] assms(2) show ?thesis
    by (simp add: quic_recv_def Let_def)
qed

lemma quic_message_channel:
  "message_channel (quic_channel st n) sent pend up (\<lambda>dl. ahead (ctx_deadline dl)) quic_frame"
proof
  fix k s f b dl
  assume up: "up k s" and enc: "frame_encode f = Inr b" and len: "length (quic_frame b) \<le> k"
    and time: "ahead (ctx_deadline dl) (length (quic_frame b)) s"
  from quic_send_ok [OF up_less [OF up len] frame_below_limit [OF enc] time] obtain s'
    where s': "quic_send st dl b s = Some (None, s')" "sent s' = sent s @ quic_frame b" "pend s' = pend s"
      "after (length (quic_frame b)) s s'" by blast
  with after_up [OF s'(4) up] len
  show "\<exists>s'. ch_Send (quic_channel st n) dl b s = Some (None, s') \<and> sent s' = sent s @ quic_frame b
      \<and> pend s' = pend s \<and> up (k - length (quic_frame b)) s'
      \<and> (\<forall>d j. ahead (ctx_deadline d) (length (quic_frame b) + j) s \<longrightarrow> ahead (ctx_deadline d) j s')"
    by (auto simp: after_def)
next
  fix k s f b rest dl
  assume up: "up k s" and enc: "frame_encode f = Inr b" and pend: "pend s = quic_frame b @ rest"
    and len: "length (quic_frame b) \<le> k" and time: "ahead (ctx_deadline dl) (length (quic_frame b)) s"
  from quic_recv_ok [OF up_less [OF up len] frame_below_limit [OF enc] time pend] obtain s'
    where s': "quic_recv st dl s = Some (Inr b, s')" "sent s' = sent s" "pend s' = rest"
      "after (length (quic_frame b)) s s'" by blast
  with after_up [OF s'(4) up] len
  show "\<exists>s'. ch_Recv (quic_channel st n) dl s = Some (Inr b, s') \<and> sent s' = sent s \<and> pend s' = rest
      \<and> up (k - length (quic_frame b)) s'
      \<and> (\<forall>d j. ahead (ctx_deadline d) (length (quic_frame b) + j) s \<longrightarrow> ahead (ctx_deadline d) j s')"
    by (auto simp: after_def)
qed (rule ahead_less)

end

sublocale duplex_stream \<subseteq> quic: message_channel "quic_channel st n" sent pend up
    "\<lambda>dl. ahead (ctx_deadline dl)" quic_frame for n
  by (rule quic_message_channel)

text \<open>The kernel's connection, with deadlines that report no error, is such a stream.\<close>

definition fd_stream :: "(fd_conn \<times> world) stream" where
  "fd_stream = \<lparr>st_read = fd_Read, st_write = fd_Write,
     st_set_read_deadline = (\<lambda>t s. (None, SetReadDeadline t (fst s), snd s)),
     st_set_write_deadline = (\<lambda>t s. (None, SetWriteDeadline t (fst s), snd s))\<rparr>"

lemma fd_stream_simps [simp]:
  "st_read fd_stream = fd_Read" "st_write fd_stream = fd_Write"
  "st_set_read_deadline fd_stream t s = (None, SetReadDeadline t (fst s), snd s)"
  "st_set_write_deadline fd_stream t s = (None, SetWriteDeadline t (fst s), snd s)"
  by (simp_all add: fd_stream_def)

interpretation fd_duplex: duplex_stream fd_stream fd_pend fd_sent fd_up
  "\<lambda>s. readDL (fst s)" "\<lambda>s. writeDL (fst s)" "\<lambda>_ _ _. True"
proof unfold_locales
  fix n s bs e s'
  assume "st_read fd_stream n s = Some ((bs, e), s')"
  then show "length bs \<le> n \<and> fd_pend s = bs @ fd_pend s' \<and> fd_sent s' = fd_sent s
      \<and> readDL (fst s') = readDL (fst s) \<and> writeDL (fst s') = writeDL (fst s)
      \<and> (\<forall>(t :: go_time) (k :: nat). True \<longrightarrow> True)"
    by (auto simp: fd_Read_def fd_pend_def fd_sent_def dest: fd_read_effect)
next
  fix b s n e s'
  assume "st_write fd_stream b s = Some ((n, e), s')"
  then show "n \<le> length b \<and> fd_sent s' = fd_sent s @ take n b \<and> fd_pend s' = fd_pend s
      \<and> readDL (fst s') = readDL (fst s) \<and> writeDL (fst s') = writeDL (fst s)
      \<and> (\<forall>(t :: go_time) (k :: nat). True \<longrightarrow> True)"
    by (auto simp: fd_Write_def fd_pend_def fd_sent_def dest: fd_write_effect)
next
  fix k s and n :: nat
  assume up: "fd_up (Suc k) s" and n: "0 < n" and "fd_pend s \<noteq> []"
  then have "serves POLLIN (Suc k) (script (snd s))" and "inbox (snd s) \<noteq> []"
    by (simp_all add: fd_up_def fd_pend_def)
  from fd_read_serves [OF this n, of "fst s"] obtain bs w'
    where rd: "fd_read (fst s) n (snd s) = Some ((bs, None), w')" "bs \<noteq> []" "serves POLLIN k (script w')"
    by blast
  with fd_read_rest [OF rd(1)] up
  show "\<exists>bs s'. st_read fd_stream n s = Some ((bs, None), s') \<and> bs \<noteq> [] \<and> fd_up k s'"
    by (auto simp: fd_Read_def fd_up_def dest: duplex_rest)
next
  fix k s and b :: bytes
  assume up: "fd_up (Suc k) s" and b: "b \<noteq> []"
  then have "serves POLLOUT (Suc k) (script (snd s))"
    by (auto simp: fd_up_def serves_duplex)
  from fd_write_serves [OF this b, of "fst s"] obtain m w'
    where wr: "fd_write (fst s) b (snd s) = Some ((m, None), w')" "0 < m" "serves POLLOUT k (script w')"
    by blast
  moreover have "list_all duplex (script w')"
    using fd_write_rest [OF wr(1)] up by (auto simp: fd_up_def dest: duplex_rest)
  ultimately show "\<exists>n s'. st_write fd_stream b s = Some ((n, None), s') \<and> 0 < n \<and> fd_up k s'"
    by (auto simp: fd_Write_def fd_up_def serves_duplex)
next
  fix k j s
  assume "fd_up k s" and "j \<le> k"
  then show "fd_up j s"
    by (auto simp: fd_up_def intro: serves_mono)
qed (auto simp: fd_pend_def fd_sent_def fd_up_def SetReadDeadline_def SetWriteDeadline_def)

section \<open>A stream that honours its deadlines\<close>

text \<open>
  A stream with a clock: \<open>t_calls\<close> are the times at which the next calls return. A call that
  returns at or after the deadline of its direction fails with a timeout, every other moves up
  to three bytes.
\<close>

record timed =
  t_pend :: bytes
  t_sent :: bytes
  t_calls :: "int list"
  t_rdl :: go_time
  t_wdl :: go_time

fun returns_before :: "int \<Rightarrow> go_time \<Rightarrow> bool" where
  "returns_before n ZeroTime = True"
| "returns_before n (At t) = (n < t)"

definition timed_read :: "timed reader" where
  "timed_read n s =
     (case t_calls s of
        [] \<Rightarrow> None
      | c # cs \<Rightarrow>
          if \<not> returns_before c (t_rdl s) then Some (([], Some IoTimeout), s\<lparr>t_calls := cs\<rparr>)
          else if t_pend s = [] then None
          else Some ((take (min 3 n) (t_pend s), None), s\<lparr>t_calls := cs, t_pend := drop (min 3 n) (t_pend s)\<rparr>))"

definition timed_write :: "timed writer" where
  "timed_write b s =
     (case t_calls s of
        [] \<Rightarrow> None
      | c # cs \<Rightarrow>
          if \<not> returns_before c (t_wdl s) then Some ((0, Some IoTimeout), s\<lparr>t_calls := cs\<rparr>)
          else Some ((min 3 (length b), None), s\<lparr>t_calls := cs, t_sent := t_sent s @ take 3 b\<rparr>))"

definition timed_stream :: "timed stream" where
  "timed_stream = \<lparr>st_read = timed_read, st_write = timed_write,
     st_set_read_deadline = (\<lambda>t s. (None, s\<lparr>t_rdl := t\<rparr>)),
     st_set_write_deadline = (\<lambda>t s. (None, s\<lparr>t_wdl := t\<rparr>))\<rparr>"

lemma timed_stream_simps [simp]:
  "st_read timed_stream = timed_read" "st_write timed_stream = timed_write"
  "st_set_read_deadline timed_stream t s = (None, s\<lparr>t_rdl := t\<rparr>)"
  "st_set_write_deadline timed_stream t s = (None, s\<lparr>t_wdl := t\<rparr>)"
  by (simp_all add: timed_stream_def)

definition timed_up :: "nat \<Rightarrow> timed \<Rightarrow> bool" where
  "timed_up k s \<longleftrightarrow> k \<le> length (t_calls s)"

definition timed_ahead :: "go_time \<Rightarrow> nat \<Rightarrow> timed \<Rightarrow> bool" where
  "timed_ahead t k s \<longleftrightarrow> (\<forall>c \<in> set (take k (t_calls s)). returns_before c t)"

interpretation timed_duplex: duplex_stream timed_stream t_pend t_sent timed_up t_rdl t_wdl timed_ahead
proof unfold_locales
  fix n s bs e s'
  assume "st_read timed_stream n s = Some ((bs, e), s')"
  then show "length bs \<le> n \<and> t_pend s = bs @ t_pend s' \<and> t_sent s' = t_sent s \<and> t_rdl s' = t_rdl s
      \<and> t_wdl s' = t_wdl s \<and> (\<forall>t k. timed_ahead t (Suc k) s \<longrightarrow> timed_ahead t k s')"
    by (auto simp: timed_read_def timed_ahead_def split: list.splits if_splits)
next
  fix b s n e s'
  assume "st_write timed_stream b s = Some ((n, e), s')"
  then show "n \<le> length b \<and> t_sent s' = t_sent s @ take n b \<and> t_pend s' = t_pend s \<and> t_rdl s' = t_rdl s
      \<and> t_wdl s' = t_wdl s \<and> (\<forall>t k. timed_ahead t (Suc k) s \<longrightarrow> timed_ahead t k s')"
    by (auto simp: timed_write_def timed_ahead_def min_def split: list.splits if_splits)
next
  fix k s and n :: nat
  assume "timed_up (Suc k) s" and "timed_ahead (t_rdl s) 1 s" and "0 < n" and "t_pend s \<noteq> []"
  then show "\<exists>bs s'. st_read timed_stream n s = Some ((bs, None), s') \<and> bs \<noteq> [] \<and> timed_up k s'"
    by (cases "t_calls s") (auto simp: timed_read_def timed_up_def timed_ahead_def)
next
  fix k s and b :: bytes
  assume "timed_up (Suc k) s" and "timed_ahead (t_wdl s) 1 s" and "b \<noteq> []"
  then show "\<exists>n s'. st_write timed_stream b s = Some ((n, None), s') \<and> 0 < n \<and> timed_up k s'"
    by (cases "t_calls s") (auto simp: timed_write_def timed_up_def timed_ahead_def)
next
  fix t k s j
  assume "timed_ahead t k s" and "j \<le> k"
  then show "timed_ahead t j s"
    unfolding timed_ahead_def using set_take_subset_set_take [of j k "t_calls s"] by blast
qed (auto simp: timed_up_def timed_ahead_def)

text \<open>On it a \<open>Recv\<close> whose deadline has passed fails, whatever is pending.\<close>

lemma timed_past_deadline:
  "t_calls s = c # cs \<Longrightarrow> t \<le> c \<Longrightarrow> quic_recv timed_stream (Some t) s = Some (Inl IoTimeout, s\<lparr>t_rdl := At t, t_calls := cs\<rparr>)"
  by (simp add: quic_recv_def setReadDeadline_def read_full_def read_loop.simps [of timed_read] timed_read_def)

section \<open>What a successful send has written\<close>

context duplex_stream
begin

lemma quic_send_front:
  assumes "quic_send st dl b s = Some (None, s')"
  shows "sent s' = sent s @ quic_frame b \<and> length b \<le> maxQUICFrameSize"
proof -
  let ?h = "be_put 4 (of_nat (length b) :: u32)"
  obtain e s0 where s0: "setWriteDeadline st dl s = (e, s0)" by (cases "setWriteDeadline st dl s")
  have "sent (snd (st_set_write_deadline st t s)) = sent s" for t
    using st_write_deadline [where t = t and s = s] by fastforce
  then have sent0: "sent s0 = sent s"
    using s0 by (cases dl) (auto simp: setWriteDeadline_def dest: sndI)
  from assms s0 obtain n1 s1 n2 where w1: "write_all (st_write st) ?h s0 = Some ((n1, None), s1)"
    and w2: "write_all (st_write st) b s1 = Some ((n2, None), s')" and "length b \<le> maxQUICFrameSize"
    by (auto simp: quic_send_def Let_def split: if_splits option.splits)
  moreover have "sent s1 = sent s0 @ ?h" and "sent s' = sent s1 @ b"
    using byte_sink.write_all_front [OF sink w1] byte_sink.write_all_front [OF sink w2] by simp_all
  ultimately show ?thesis
    using sent0 by (simp add: quic_frame_def)
qed

end

section \<open>Properties\<close>

text \<open>C12: A message of any length up to 16 MiB, the empty one included, survives the stream: what a
  \<open>Send\<close> that reports no error has written is read back by one \<open>Recv\<close> as exactly that message,
  if the deadline of its context leaves time for it, however the streams on both sides cut it
  into pieces, and what follows is left alone.\<close>

theorem quic_message_intact:
  assumes "duplex_stream stp pendp sentp upp rdlp wdlp aheadp" and "duplex_stream st pend sent up rdl wdl ahead"
    and "quic_send stp dlp b p = Some (None, p')" and "sentp p' = sentp p @ w"
    and "pend s = w @ rest" and "up (length w) s" and "ahead (ctx_deadline dl) (length w) s"
  shows "\<exists>s'. quic_recv st dl s = Some (Inr b, s') \<and> pend s' = rest"
proof -
  from duplex_stream.quic_send_front [OF assms(1,3)] assms(4)
  have w: "w = quic_frame b" and len: "length b \<le> maxQUICFrameSize" by simp_all
  from duplex_stream.quic_recv_ok [OF assms(2), of b s dl rest] len assms(5-7) w show ?thesis by auto
qed

text \<open>Six calls of the receiver return by the time 60, the deadline is 61.\<close>

theorem quic_message_intact_witness:
  "\<exists>s'. quic_recv timed_stream (Some 61) \<lparr>t_pend = quic_frame [8, 9] @ [1], t_sent = [], t_calls = [10, 20, 30, 40, 50, 60],
      t_rdl = At 5, t_wdl = ZeroTime\<rparr> = Some (Inr [8, 9], s') \<and> t_pend s' = [1]"
proof -
  let ?p = "\<lparr>t_pend = [], t_sent = [], t_calls = [1, 2, 3, 4, 5, 6], t_rdl = ZeroTime, t_wdl = ZeroTime\<rparr>"
  let ?s = "\<lparr>t_pend = quic_frame [8, 9] @ [1], t_sent = [], t_calls = [10, 20, 30, 40, 50, 60], t_rdl = At 5, t_wdl = ZeroTime\<rparr>"
  have six: "length (quic_frame [8, 9]) = 6" and len: "length [8, 9 :: byte] \<le> maxQUICFrameSize"
    by (simp_all add: maxQUICFrameSize_def)
  have "timed_up 6 ?p" and "timed_ahead (ctx_deadline (Some 9)) 6 ?p"
    by (simp_all add: timed_up_def timed_ahead_def ctx_deadline_def)
  then obtain p' where send: "quic_send timed_stream (Some 9) [8, 9] ?p = Some (None, p')"
    and sent: "t_sent p' = t_sent ?p @ quic_frame [8, 9]"
    using timed_duplex.quic_send_ok [of "[8, 9]" ?p "Some 9"] len six by auto
  have pend: "t_pend ?s = quic_frame [8, 9] @ [1]" by simp
  have up: "timed_up (length (quic_frame [8, 9])) ?s"
    unfolding six by (simp add: timed_up_def)
  have time: "timed_ahead (ctx_deadline (Some 61)) (length (quic_frame [8, 9])) ?s"
    unfolding six by (simp add: timed_ahead_def ctx_deadline_def)
  show ?thesis
    by (rule quic_message_intact [where aheadp = timed_ahead and ahead = timed_ahead and up = timed_up and pend = t_pend and sentp = t_sent,
        OF timed_duplex.duplex_stream_axioms timed_duplex.duplex_stream_axioms send sent pend up time])
qed

text \<open>C20: Both directions enforce the limit of 16 MiB: \<open>Send\<close> refuses a longer message without
  touching the stream, and \<open>Recv\<close> refuses a longer announcement after reading no more than the
  four bytes of the length.\<close>

theorem quic_limit_enforced:
  assumes "duplex_stream st pend sent up rdl wdl ahead" and "maxQUICFrameSize < length b"
    and "pend s = h @ rest" and "length h = 4" and "maxQUICFrameSize < be_nat h"
    and "up 4 s" and "ahead (ctx_deadline dl) 4 s"
  shows "quic_send st dl b t = Some (Some (Errorf ''payload too large: %d'' [int (length b)] []), t)
    \<and> (\<exists>s'. quic_recv st dl s = Some (Inl (Errorf ''incoming payload too large: %d'' [int (be_nat h)] []), s')
        \<and> pend s' = rest)"
proof -
  note up = duplex_stream.after_up [OF assms(1)] and ahead = duplex_stream.after_ahead [OF assms(1)]
  obtain s0 where s0: "setReadDeadline st dl s = (None, s0)" "pend s0 = pend s" "rdl s0 = ctx_deadline dl"
    "up 4 s0" "ahead (rdl s0) 4 s0"
    using duplex_stream.read_deadline_set [OF assms(1), of dl s] up [OF _ assms(6)] ahead [OF _ assms(7)] by force
  have "pend s0 = h @ rest" using s0(2) assms(3) by simp
  from duplex_stream.read_exact [OF assms(1) s0(4,5) this assms(4)] obtain s1
    where s1: "read_full (st_read st) 4 s0 = Some ((h, None), s1)" "pend s1 = rest"
    by blast
  have "unat (be_get h :: u32) = be_nat h"
    using assms(4) by (simp add: unat_be_get)
  moreover from this have "uint (be_get h :: u32) = int (be_nat h)"
    by (metis of_nat_unat)
  ultimately show ?thesis
    using s0 s1 assms(2,5)
    by (simp add: quic_send_def quic_recv_def Let_def)
qed

theorem quic_limit_enforced_witness:
  "\<exists>s'. quic_recv timed_stream (Some 50) \<lparr>t_pend = [2, 0, 0, 0, 7], t_sent = [], t_calls = [10, 20, 30, 40, 90],
      t_rdl = ZeroTime, t_wdl = ZeroTime\<rparr>
    = Some (Inl (Errorf ''incoming payload too large: %d'' [33554432] []), s') \<and> t_pend s' = [7]"
proof -
  let ?s = "\<lparr>t_pend = [2, 0, 0, 0, 7], t_sent = [], t_calls = [10, 20, 30, 40, 90], t_rdl = ZeroTime, t_wdl = ZeroTime\<rparr>"
  have big: "maxQUICFrameSize < length (replicate (maxQUICFrameSize + 1) (0 :: byte))"
    by (simp only: length_replicate)
  have pend: "t_pend ?s = [2, 0, 0, 0] @ [7]" and four: "length [2, 0, 0, 0 :: byte] = 4"
    by simp_all
  have nat: "be_nat [2, 0, 0, 0] = 33554432"
    by (simp add: be_nat_def)
  then have ann: "maxQUICFrameSize < be_nat [2, 0, 0, 0]"
    by (simp add: maxQUICFrameSize_def)
  have up: "timed_up 4 ?s" and time: "timed_ahead (ctx_deadline (Some 50)) 4 ?s"
    by (simp_all add: timed_up_def timed_ahead_def ctx_deadline_def)
  from quic_limit_enforced [where ahead = timed_ahead and up = timed_up and pend = t_pend,
      OF timed_duplex.duplex_stream_axioms big pend four ann up time]
  show ?thesis by (simp add: nat)
qed

end
