(* ===== verification/Load.thy ===== *)
theory Load
  imports Metrics Config Channel
begin

text \<open>
  \<open>pkg/load/load.go\<close>: the load generator. The body of the loop of a worker is modelled by
  the steps it makes on its channel and on the shared collector, once as functions for a
  worker on its own (\<open>latency_round\<close>, \<open>flood_round\<close>) and once as a step relation for all
  workers of a run together (theory \<open>Load_Run\<close>). Clock readings are arguments.
\<close>

section \<open>Helpers\<close>

definition load_max :: "int \<Rightarrow> int \<Rightarrow> int" where
  "load_max a b = (if b < a then a else b)"

definition recvTimeout :: "run_config \<Rightarrow> int" where
  "recvTimeout r = (if 0 < RecvTimeout r then RecvTimeout r else second)"

definition isTimeoutError :: "go_error \<Rightarrow> bool" where
  "isTimeoutError err =
     (if errors_is err DeadlineExceeded then True else errors_as_timeout err)"

definition worker_count :: "run_config \<Rightarrow> int" where
  "worker_count r = (let workers = Workers r in if workers \<le> 0 then 1 else workers)"

text \<open>The number of the channel that a worker opens: \<open>uint16(workerID % max(1, ChannelCount))\<close>.\<close>

definition worker_channel :: "config \<Rightarrow> int \<Rightarrow> u16" where
  "worker_channel cfg workerID = of_int (go_mod workerID (load_max 1 (ChannelCount cfg)))"

definition ppsPerWorker :: "run_config \<Rightarrow> int" where
  "ppsPerWorker r = load_max 1 (go_div (PPS r) (worker_count r))"

text \<open>The period of a worker's ticker in nanoseconds.\<close>

definition tick_interval :: "run_config \<Rightarrow> int" where
  "tick_interval r =
     (let interval = go_div second (ppsPerWorker r)
      in if interval \<le> 0 then 1000 else interval)"

text \<open>In latency mode there is a ticker only when the rate limit is on and a rate is set.\<close>

definition latency_ticker :: "run_config \<Rightarrow> int option" where
  "latency_ticker r = (if LatencyRateLimit r \<and> 0 < PPS r then Some (tick_interval r) else None)"

section \<open>One request\<close>

text \<open>
  The frame of a request; \<open>typ\<close> is \<open>MsgReq\<close> or \<open>MsgFlood\<close>. \<open>buf, _ := frm.Encode()\<close> drops
  the error: the buffer is \<open>nil\<close> when encoding fails.
\<close>

definition request_frame :: "byte \<Rightarrow> u64 \<Rightarrow> int \<Rightarrow> u16 \<Rightarrow> bytes \<Rightarrow> frame" where
  "request_frame typ rid now chID payload =
     \<lparr>MsgType = typ, SeqID = rid, SendTSNS = of_int now, ChannelID = chID, Payload = payload\<rparr>"

definition encode_or_nil :: "frame \<Rightarrow> bytes" where
  "encode_or_nil f = (case frame_encode f of Inl _ \<Rightarrow> [] | Inr buf \<Rightarrow> buf)"

text \<open>Send and count: \<open>True\<close> when the request counts as sent.\<close>

definition send_request :: "'s channel \<Rightarrow> int option \<Rightarrow> byte \<Rightarrow> u64 \<Rightarrow> int \<Rightarrow> bytes \<Rightarrow>
    collector \<Rightarrow> 's \<Rightarrow> (bool \<times> collector \<times> 's) option" where
  "send_request ch dl typ rid now payload c s =
     (case ch_Send ch dl (encode_or_nil (request_frame typ rid now (ch_ID ch) payload)) s of
        None \<Rightarrow> None
      | Some (Some err, s) \<Rightarrow> Some (False, AddDropSendErr 1 c, s)
      | Some (None, s) \<Rightarrow> Some (True, AddTx 1 c, s))"

text \<open>
  What the result of \<open>Recv\<close> means for the request \<open>rid\<close>: the counter it goes to, or the time
  stamp of an accepted response.
\<close>

definition response_verdict :: "u64 \<Rightarrow> go_error + bytes \<Rightarrow> counter + u64" where
  "response_verdict rid r =
     (case r of
        Inl err \<Rightarrow> if isTimeoutError err then Inl CDropTimeout else Inl CDropOther
      | Inr raw \<Rightarrow>
          (case frame_decode raw of
             Inl err \<Rightarrow> Inl CDropDecode
           | Inr resp \<Rightarrow>
               if MsgType resp \<noteq> MsgResp \<or> SeqID resp \<noteq> rid then Inl CDropMismatch
               else Inr (SendTSNS resp)))"

text \<open>\<open>time.Since(time.Unix(0, ts))\<close> at time \<open>now\<close>.\<close>

definition since_stamp :: "int \<Rightarrow> u64 \<Rightarrow> int" where
  "since_stamp now ts = time_sub now (sint ts)"

definition settle :: "u64 \<Rightarrow> int \<Rightarrow> go_error + bytes \<Rightarrow> collector \<Rightarrow> collector" where
  "settle rid now r c =
     (case response_verdict rid r of
        Inl k \<Rightarrow> add_counter k 1 c
      | Inr ts \<Rightarrow> AddLatency (since_stamp now ts) (AddRx 1 c))"

text \<open>
  One round of a worker in latency mode at the clock readings \<open>t1\<close> (time stamp), \<open>t2\<close>
  (start of the receive timeout) and \<open>t3\<close> (arrival), and one round in flood mode. The state
  is the request counter, the collector and the channel's state.
\<close>

definition latency_round :: "run_config \<Rightarrow> 's channel \<Rightarrow> int option \<Rightarrow> bytes \<Rightarrow> int \<times> int \<times> int \<Rightarrow>
    u64 \<times> collector \<times> 's \<Rightarrow> (u64 \<times> collector \<times> 's) option" where
  "latency_round r ch dl payload ts st =
     (case (ts, st) of
        ((t1, t2, t3), (seq, c, s)) \<Rightarrow>
          let rid = seq + 1
          in case send_request ch dl MsgReq rid t1 payload c s of
               None \<Rightarrow> None
             | Some (False, c, s) \<Rightarrow> Some (rid, c, s)
             | Some (True, c, s) \<Rightarrow>
                 (case ch_Recv ch (with_timeout dl t2 (recvTimeout r)) s of
                    None \<Rightarrow> None
                  | Some (raw, s) \<Rightarrow> Some (rid, settle rid t3 raw c, s)))"

definition flood_round :: "'s channel \<Rightarrow> int option \<Rightarrow> bytes \<Rightarrow> int \<Rightarrow>
    u64 \<times> collector \<times> 's \<Rightarrow> (u64 \<times> collector \<times> 's) option" where
  "flood_round ch dl payload t1 st =
     (case st of (seq, c, s) \<Rightarrow>
        let rid = seq + 1
        in map_option (\<lambda>(_, c, s). (rid, c, s)) (send_request ch dl MsgFlood rid t1 payload c s))"

text \<open>The rounds that a worker makes before its context ends.\<close>

fun latency_rounds :: "run_config \<Rightarrow> 's channel \<Rightarrow> int option \<Rightarrow> bytes \<Rightarrow> (int \<times> int \<times> int) list \<Rightarrow>
    u64 \<times> collector \<times> 's \<Rightarrow> (u64 \<times> collector \<times> 's) option" where
  "latency_rounds r ch dl payload [] st = Some st"
| "latency_rounds r ch dl payload (t # ts) st =
     (case latency_round r ch dl payload t st of
        None \<Rightarrow> None
      | Some st \<Rightarrow> latency_rounds r ch dl payload ts st)"

section \<open>The results of a run\<close>

text \<open>
  One second's tick of \<open>collectSnapshots\<close>: the time, the time since the start and the
  collector at that moment.
\<close>

record observation =
  ob_now :: int
  ob_since :: int
  ob_stats :: collector

definition take_snapshot :: "string \<Rightarrow> config \<Rightarrow> int \<Rightarrow> int \<Rightarrow> observation \<Rightarrow> snapshot" where
  "take_snapshot mode cfg pps channels ob =
     Collector_Snapshot (ob_now ob) mode (TransportType cfg) pps channels (ob_since ob) (ob_stats ob)"

text \<open>\<open>collectSnapshots\<close> appends one row per tick until the context is done.\<close>

definition collectSnapshots :: "string \<Rightarrow> config \<Rightarrow> int \<Rightarrow> int \<Rightarrow> observation list \<Rightarrow> snapshot list" where
  "collectSnapshots mode cfg pps channels obs =
     foldl (\<lambda>rows ob. rows @ [take_snapshot mode cfg pps channels ob]) [] obs"

text \<open>
  What a run observes: the ticks, and the collector after all workers have ended. The final
  row of \<open>RunLatency\<close> covers the time since the start, that of \<open>RunFlood\<close> the configured
  duration.
\<close>

record run_trace =
  rt_ticks :: "observation list"
  rt_final :: observation

definition RunLatency :: "config \<Rightarrow> run_config \<Rightarrow> run_trace \<Rightarrow> go_error + snapshot list" where
  "RunLatency cfg r tr =
     (let workers = worker_count r;
          intervals = collectSnapshots ''latency'' cfg (PPS r) workers (rt_ticks tr);
          final = take_snapshot ''latency'' cfg (PPS r) workers (rt_final tr)
      in Inr (intervals @ [final]))"

definition RunFlood :: "config \<Rightarrow> run_config \<Rightarrow> run_trace \<Rightarrow> go_error + snapshot list" where
  "RunFlood cfg r tr =
     (let workers = worker_count r;
          intervals = collectSnapshots ''flood'' cfg (PPS r) workers (rt_ticks tr)
      in Inr (intervals @
          [take_snapshot ''flood'' cfg (PPS r) workers ((rt_final tr)\<lparr>ob_since := Duration r\<rparr>)]))"

text \<open>
  The loop of \<open>RunThroughputSweep\<close>, \<open>n\<close> steps from the \<open>i\<close>-th on; \<open>trs i\<close> is what the run of
  step \<open>i\<close> observes.
\<close>

definition step_error :: "nat \<Rightarrow> int \<Rightarrow> go_error \<Rightarrow> go_error" where
  "step_error i pps err =
     Wrapf (''step '' @ format_int (int i + 1) @ '' pps='' @ format_int pps @ '': %w'') err"

fun sweep_loop :: "config \<Rightarrow> run_config \<Rightarrow> (nat \<Rightarrow> run_trace) \<Rightarrow> int \<Rightarrow> int \<Rightarrow> nat \<Rightarrow> nat \<Rightarrow>
    snapshot list \<Rightarrow> go_error + snapshot list" where
  "sweep_loop cfg r trs startPPS inc i 0 all = Inr all"
| "sweep_loop cfg r trs startPPS inc i (Suc n) all =
     (let pps = go_int (startPPS + go_int (int i * inc));
          r2 = r\<lparr>PPS := pps, Duration := StepDuration r\<rparr>
      in case RunLatency cfg r2 (trs i) of
           Inl err \<Rightarrow> Inl (step_error i pps err)
         | Inr rows \<Rightarrow>
             sweep_loop cfg r trs startPPS inc (Suc i) n
               (if rows \<noteq> [] then all @ [last rows] else all))"

definition sweep_steps :: "run_config \<Rightarrow> int" where
  "sweep_steps r = (let steps = StepCount r in if steps \<le> 0 then 1 else steps)"

definition sweep_start :: "run_config \<Rightarrow> int" where
  "sweep_start r =
     (let startPPS = StepStartPPS r in if startPPS \<le> 0 then load_max 1 (BasePPS r) else startPPS)"

definition sweep_inc :: "run_config \<Rightarrow> int" where
  "sweep_inc r = (let inc = StepIncrement r in if inc \<le> 0 then load_max 1 (StepPPS r) else inc)"

definition RunThroughputSweep :: "config \<Rightarrow> run_config \<Rightarrow> (nat \<Rightarrow> run_trace) \<Rightarrow> go_error + snapshot list" where
  "RunThroughputSweep cfg r trs =
     (if StepDuration r \<le> 0 then Inl (Errorf ''step_duration must be > 0'' [] [])
      else sweep_loop cfg r trs (sweep_start r) (sweep_inc r) 0 (nat (sweep_steps r)) [])"

section \<open>Lemmas\<close>

lemma worker_count_pos [simp]: "0 < worker_count r"
  by (simp add: worker_count_def Let_def)

lemma load_max_max [simp]: "load_max a b = max a b"
  by (simp add: load_max_def max_def)

lemma collectSnapshots_map: "collectSnapshots m cfg pps ch obs = map (take_snapshot m cfg pps ch) obs"
proof -
  have "foldl (\<lambda>rows ob. rows @ [take_snapshot m cfg pps ch ob]) rows obs =
      rows @ map (take_snapshot m cfg pps ch) obs" for rows
    by (induction obs arbitrary: rows) simp_all
  then show ?thesis by (simp add: collectSnapshots_def)
qed

lemma RunLatency_rows:
  "RunLatency cfg r tr = Inr (map (take_snapshot ''latency'' cfg (PPS r) (worker_count r))
    (rt_ticks tr @ [rt_final tr]))"
  by (simp add: RunLatency_def Let_def collectSnapshots_map)

lemma RunFlood_rows:
  "RunFlood cfg r tr = Inr (map (take_snapshot ''flood'' cfg (PPS r) (worker_count r))
    (rt_ticks tr @ [(rt_final tr)\<lparr>ob_since := Duration r\<rparr>]))"
  by (simp add: RunFlood_def Let_def collectSnapshots_map)

lemma take_snapshot_counts [simp]:
  "Tx (take_snapshot m cfg p ch ob) = tx (ob_stats ob)"
  "Rx (take_snapshot m cfg p ch ob) = rx (ob_stats ob)"
  "Drop (take_snapshot m cfg p ch ob) = dropTimeout (ob_stats ob) + dropSendErr (ob_stats ob)
    + dropDecode (ob_stats ob) + dropMismatch (ob_stats ob) + dropOther (ob_stats ob)"
  "DropSendErr (take_snapshot m cfg p ch ob) = dropSendErr (ob_stats ob)"
  "TargetPPS (take_snapshot m cfg p ch ob) = p"
  "Channels (take_snapshot m cfg p ch ob) = ch"
  "Mode (take_snapshot m cfg p ch ob) = m"
  by (simp_all add: take_snapshot_def Collector_Snapshot_def Let_def split_beta)

lemma worker_count_sweep [simp]: "worker_count (r\<lparr>PPS := p, Duration := d\<rparr>) = worker_count r"
  by (simp add: worker_count_def)

lemma sweep_loop_rows:
  assumes "\<And>j. j < n \<Longrightarrow> in_int64 (int (i + j) * inc) \<and> in_int64 (startPPS + int (i + j) * inc)"
  shows "sweep_loop cfg r trs startPPS inc i n all = Inr (all @
    map (\<lambda>j. take_snapshot ''latency'' cfg (startPPS + int j * inc) (worker_count r) (rt_final (trs j)))
      [i..<i + n])"
  using assms
proof (induction n arbitrary: i all)
  case (Suc n)
  have "go_int (startPPS + go_int (int i * inc)) = startPPS + int i * inc"
    using Suc.prems [of 0] by (simp add: go_int_id)
  moreover have "sweep_loop cfg r trs startPPS inc (Suc i) n all' = Inr (all' @
      map (\<lambda>j. take_snapshot ''latency'' cfg (startPPS + int j * inc) (worker_count r) (rt_final (trs j)))
        [Suc i..<i + Suc n])" for all'
    using Suc.prems [of "Suc j" for j] Suc.IH [of "Suc i" all'] by simp
  ultimately show ?case
    by (simp add: RunLatency_rows Let_def upt_conv_Cons del: upt_Suc)
qed simp

lemma mismatch_of_other:
  assumes "frame_decode raw = Inr f" and "SeqID f \<noteq> i"
  shows "response_verdict i (Inr raw) = Inl CDropMismatch"
  using assms by (simp add: response_verdict_def)

section \<open>Properties\<close>

text \<open>C15: The ticker of a worker keeps the configured rate up to integer division. With at least as
  many packets per second as workers, the rates of all workers together stay within one packet
  per second and worker below the target; the period is the largest whole number of nanoseconds
  that reaches a worker's share. With fewer packets per second than workers every worker still
  sends one a second, which is more than the target.\<close>

theorem tick_interval_rate:
  assumes "0 < PPS r" and "PPS r \<le> second"
  shows "(worker_count r \<le> PPS r \<longrightarrow>
        PPS r - worker_count r < worker_count r * ppsPerWorker r
        \<and> worker_count r * ppsPerWorker r \<le> PPS r)
    \<and> (PPS r < worker_count r \<longrightarrow> ppsPerWorker r = 1 \<and> tick_interval r = second)
    \<and> 0 < tick_interval r
    \<and> tick_interval r * ppsPerWorker r \<le> second
    \<and> second < (tick_interval r + 1) * ppsPerWorker r"
proof -
  let ?w = "worker_count r" and ?p = "ppsPerWorker r"
  have div: "go_div (PPS r) ?w = PPS r div ?w"
    using assms(1) by (simp add: go_div_nonneg)
  then have p: "?p = max 1 (PPS r div ?w)"
    by (simp add: ppsPerWorker_def)
  have "PPS r div ?w \<le> PPS r"
    using zdiv_mono2 [of "PPS r" 1 ?w] assms(1) worker_count_pos [of r] by simp
  then have p1: "1 \<le> ?p" and p2: "?p \<le> second"
    using assms(2) by (auto simp: p second_def)
  then have "1 \<le> second div ?p"
    by (simp add: pos_imp_zdiv_pos_iff [of ?p second, simplified] int_one_le_iff_zero_less)
  then have t: "tick_interval r = second div ?p"
    using p1 by (simp add: tick_interval_def Let_def go_div_nonneg second_def)
  have split_div: "a - b < b * (a div b) \<and> b * (a div b) \<le> a" if "0 < b" for a b :: int
  proof -
    define q m where "q = a div b" and "m = a mod b"
    have "a = b * q + m" and "0 \<le> m" and "m < b"
      using that by (simp_all add: q_def m_def)
    then show ?thesis unfolding q_def [symmetric] by simp
  qed
  have many: "PPS r - ?w < ?w * ?p \<and> ?w * ?p \<le> PPS r" if "?w \<le> PPS r"
  proof -
    have "?p = PPS r div ?w"
      using that assms(1) by (auto simp: p max_def int_one_le_iff_zero_less pos_imp_zdiv_pos_iff not_le)
    with split_div [of ?w "PPS r"] show ?thesis by simp
  qed
  have few: "?p = 1" if "PPS r < ?w"
    using that assms(1) by (simp add: p)
  show ?thesis
    using many few split_div [of ?p second] p1 \<open>1 \<le> second div ?p\<close>
    by (auto simp: t algebra_simps)
qed

theorem tick_interval_rate_witness:
  "5 < worker_count (RunPart Default\<lparr>Workers := 8, PPS := 5\<rparr>) \<and>
    tick_interval (RunPart Default\<lparr>Workers := 8, PPS := 5\<rparr>) = second"
  using tick_interval_rate [of "RunPart Default\<lparr>Workers := 8, PPS := 5\<rparr>"]
  by (simp add: worker_count_def second_def)

text \<open>C14: A throughput sweep with a positive step duration returns one row per step, in order, with the
  target rates start, start + increment, and so on, unless the last rate overflows; each row is
  the final snapshot of the run of its step.\<close>

theorem sweep_rows:
  assumes "0 < StepDuration r" and "in_int64 (sweep_start r + (sweep_steps r - 1) * sweep_inc r)"
  shows "\<exists>rows. RunThroughputSweep cfg r trs = Inr rows \<and> int (length rows) = max 1 (StepCount r)
    \<and> (\<forall>i < length rows. TargetPPS (rows ! i) = sweep_start r + int i * sweep_inc r
        \<and> rows ! i = take_snapshot ''latency'' cfg (sweep_start r + int i * sweep_inc r)
            (worker_count r) (rt_final (trs i)))"
proof -
  have steps: "sweep_steps r = max 1 (StepCount r)" and pos: "0 < sweep_start r" "0 < sweep_inc r"
    by (auto simp: sweep_steps_def sweep_start_def sweep_inc_def Let_def max_def)
  let ?n = "nat (sweep_steps r)"
  have range: "in_int64 (int j * sweep_inc r) \<and> in_int64 (sweep_start r + int j * sweep_inc r)"
    if "j < ?n" for j
  proof -
    have "int j * sweep_inc r \<le> (sweep_steps r - 1) * sweep_inc r"
      using that pos(2) steps by (intro mult_right_mono) auto
    moreover have "0 \<le> int j * sweep_inc r"
      using pos(2) by simp
    ultimately show ?thesis
      using assms(2) pos(1) by (simp add: in_int64_def min_int64_def)
  qed
  have "RunThroughputSweep cfg r trs = Inr (map (\<lambda>j. take_snapshot ''latency'' cfg
      (sweep_start r + int j * sweep_inc r) (worker_count r) (rt_final (trs j))) [0..<?n])"
    using assms(1) sweep_loop_rows [of ?n 0 "sweep_inc r" "sweep_start r" cfg r trs "[]"] range
    by (simp add: RunThroughputSweep_def)
  then show ?thesis
    using steps by simp
qed

theorem sweep_rows_witness:
  "\<forall>trs. \<exists>rows. RunThroughputSweep (TransportPart Default) (RunPart Default) trs = Inr rows
    \<and> int (length rows) = 5 \<and> (\<forall>i < length rows. TargetPPS (rows ! i) = 1000 + int i * 1000)"
proof -
  have "sweep_start (RunPart Default) = 1000" "sweep_inc (RunPart Default) = 1000"
    "sweep_steps (RunPart Default) = 5" "StepCount (RunPart Default) = 5" "0 < StepDuration (RunPart Default)"
    by (simp_all add: Default_def sweep_start_def sweep_inc_def sweep_steps_def second_def)
  with sweep_rows [of "RunPart Default" "TransportPart Default"] show ?thesis
    by (fastforce simp: in_int64_def min_int64_def max_int64_def)
qed

end
