(* ===== verification/Load_Run.thy ===== *)
theory Load_Run
  imports Load
begin

text \<open>
  A whole run of \<open>RunLatency\<close> or \<open>RunFlood\<close>: all workers, the shared request counter, the
  shared collector and the reporting loop, as a step relation. A step is one atomic action of
  one worker (an operation on the atomic counter, a call of a locked method of the collector,
  a call on its own channel) or one tick of the reporter; the scheduler, the channels and the
  clock are not restricted: a \<open>Send\<close> may fail or not, a \<open>Recv\<close> may return anything. What holds
  of every reachable state therefore holds for every transport.
\<close>

section \<open>Workers\<close>

text \<open>
  Where a worker is in \<open>load.go\<close>: before \<open>r.open\<close>, at the top of the loop, after
  \<open>seq.Add(1)\<close>, after \<open>Send\<close>, after \<open>AddTx\<close>, after the verdict on the response, between
  \<open>AddRx\<close> and \<open>AddLatency\<close>, and after the goroutine has returned.
\<close>

datatype pc =
    Opening
  | LoopTop
  | Numbered u64
  | SendDone u64
  | SendFailed
  | Awaiting u64
  | Dropped counter
  | Accepted u64
  | RxCounted u64
  | Finished

type_synonym local_state = "pc \<times> u64 \<times> collector"

inductive worker_step :: "bool \<Rightarrow> local_state \<Rightarrow> local_state \<Rightarrow> bool" for flood :: bool where
  open_ok: "worker_step flood (Opening, q, c) (LoopTop, q, c)"
| open_failed: "worker_step flood (Opening, q, c) (Finished, q, c)"
| context_done: "worker_step flood (LoopTop, q, c) (Finished, q, c)"
| take_number: "worker_step flood (LoopTop, q, c) (Numbered (q + 1), q + 1, c)"
| send_ok: "worker_step flood (Numbered n, q, c) (SendDone n, q, c)"
| send_failed: "worker_step flood (Numbered n, q, c) (SendFailed, q, c)"
| count_send_error: "worker_step flood (SendFailed, q, c) (LoopTop, q, AddDropSendErr 1 c)"
| count_tx: "worker_step flood (SendDone n, q, c) (if flood then LoopTop else Awaiting n, q, AddTx 1 c)"
| recv_dropped: "response_verdict n r = Inl k \<Longrightarrow> worker_step flood (Awaiting n, q, c) (Dropped k, q, c)"
| recv_accepted: "response_verdict n r = Inr ts \<Longrightarrow> worker_step flood (Awaiting n, q, c) (Accepted ts, q, c)"
| count_drop: "worker_step flood (Dropped k, q, c) (LoopTop, q, add_counter k 1 c)"
| count_rx: "worker_step flood (Accepted ts, q, c) (RxCounted ts, q, AddRx 1 c)"
| count_latency: "worker_step flood (RxCounted ts, q, c) (LoopTop, q, AddLatency (since_stamp now ts) c)"

inductive_cases worker_stepE: "worker_step flood (p, q, c) (p', q', c')"

section \<open>Runs\<close>

text \<open>
  \<open>issued\<close> records the numbers handed out so far and \<open>ticks\<close> what the reporter has seen.
\<close>

record runner =
  seqno :: u64
  stats :: collector
  pcs :: "pc list"
  issued :: "u64 list"
  ticks :: "observation list"

definition start_run :: "nat \<Rightarrow> runner" where
  "start_run n = \<lparr>seqno = 0, stats = new_collector, pcs = replicate n Opening, issued = [], ticks = []\<rparr>"

text \<open>The numbers that a step hands out: the new value of the counter, if it has moved on.\<close>

definition numbers :: "pc \<Rightarrow> pc \<Rightarrow> u64 list" where
  "numbers p p' = (case (p, p') of (LoopTop, Numbered n) \<Rightarrow> [n] | _ \<Rightarrow> [])"

inductive run_step :: "bool \<Rightarrow> runner \<Rightarrow> runner \<Rightarrow> bool" for flood :: bool where
  work: "i < length (pcs s) \<Longrightarrow> worker_step flood (pcs s ! i, seqno s, stats s) (p, q, c) \<Longrightarrow>
    run_step flood s (s\<lparr>seqno := q, stats := c, pcs := (pcs s)[i := p],
      issued := issued s @ numbers (pcs s ! i) p\<rparr>)"
| tick: "run_step flood s (s\<lparr>ticks := ticks s @ [\<lparr>ob_now = now, ob_since = d, ob_stats = stats s\<rparr>]\<rparr>)"

definition all_finished :: "runner \<Rightarrow> bool" where
  "all_finished s \<longleftrightarrow> (\<forall>p \<in> set (pcs s). p = Finished)"

text \<open>What \<open>RunLatency\<close> and \<open>RunFlood\<close> report of a run that has ended.\<close>

definition trace_of :: "runner \<Rightarrow> int \<Rightarrow> int \<Rightarrow> run_trace" where
  "trace_of s now since =
     \<lparr>rt_ticks = ticks s, rt_final = \<lparr>ob_now = now, ob_since = since, ob_stats = stats s\<rparr>\<rparr>"

section \<open>The accounting invariant\<close>

text \<open>
  Every worker contributes at most one request that has been numbered but neither counted as
  sent nor as failed, one that has been sent but not settled, and one response that has been
  counted but whose latency has not been recorded.
\<close>

fun unsent :: "pc \<Rightarrow> nat" where
  "unsent (Numbered n) = 1"
| "unsent (SendDone n) = 1"
| "unsent SendFailed = 1"
| "unsent _ = 0"

fun in_flight :: "pc \<Rightarrow> nat" where
  "in_flight (Awaiting n) = 1"
| "in_flight (Dropped k) = 1"
| "in_flight (Accepted ts) = 1"
| "in_flight _ = 0"

fun unrecorded :: "pc \<Rightarrow> nat" where
  "unrecorded (RxCounted ts) = 1"
| "unrecorded _ = 0"

definition weight :: "(pc \<Rightarrow> nat) \<Rightarrow> pc list \<Rightarrow> u64" where
  "weight f ps = of_nat (sum_list (map f ps))"

lemma weight_update:
  assumes "i < length ps"
  shows "weight f (ps[i := p]) = weight f ps - of_nat (f (ps ! i)) + of_nat (f p)"
proof -
  have "sum_list (map f (ps[i := p])) + f (ps ! i) = sum_list (map f ps) + f p"
    using assms by (induction ps arbitrary: i) (auto split: nat.splits)
  then have "(of_nat (sum_list (map f (ps[i := p])) + f (ps ! i)) :: u64) =
      of_nat (sum_list (map f ps) + f p)"
    by (rule arg_cong)
  then show ?thesis
    by (simp add: weight_def algebra_simps)
qed

text \<open>Requests that have been settled other than by a response.\<close>

definition drops :: "collector \<Rightarrow> u64" where
  "drops c = dropTimeout c + dropDecode c + dropMismatch c + dropOther c"

definition balanced :: "runner \<Rightarrow> bool" where
  "balanced s \<longleftrightarrow>
     seqno s = tx (stats s) + dropSendErr (stats s) + weight unsent (pcs s)
     \<and> tx (stats s) = rx (stats s) + drops (stats s) + weight in_flight (pcs s)
     \<and> rx (stats s) = of_nat (length (latencyUS (stats s))) + weight unrecorded (pcs s)"

text \<open>A response is never settled as a failed send, a sent request or a response.\<close>

definition settles :: "counter \<Rightarrow> bool" where
  "settles k \<longleftrightarrow> k \<in> {CDropTimeout, CDropDecode, CDropMismatch, CDropOther}"

lemma response_verdict_settles: "response_verdict n r = Inl k \<Longrightarrow> settles k"
  by (auto simp: response_verdict_def settles_def split: sum.splits if_splits)

definition drops_settle :: "runner \<Rightarrow> bool" where
  "drops_settle s \<longleftrightarrow> (\<forall>k. Dropped k \<in> set (pcs s) \<longrightarrow> settles k)"

lemma drops_settle_step: "run_step flood s s' \<Longrightarrow> drops_settle s \<Longrightarrow> drops_settle s'"
proof (induction rule: run_step.induct)
  case (work i s p q c)
  have "p = Dropped k \<Longrightarrow> settles k" for k
    using work.hyps(2) by (cases rule: worker_step.cases) (auto dest: response_verdict_settles split: if_splits)
  then show ?case
    using work.prems set_update_subset_insert [of "pcs s" i p] by (fastforce simp: drops_settle_def)
qed (simp add: drops_settle_def)

lemma settles_cases:
  "settles k \<Longrightarrow> drops (add_counter k 1 c) = drops c + 1 \<and> tx (add_counter k 1 c) = tx c
    \<and> rx (add_counter k 1 c) = rx c \<and> dropSendErr (add_counter k 1 c) = dropSendErr c"
  by (auto simp: settles_def drops_def collector_defs)

lemma balanced_step:
  "run_step False s s' \<Longrightarrow> drops_settle s \<Longrightarrow> balanced s \<Longrightarrow> balanced s'"
proof (induction rule: run_step.induct)
  case (work i s p q c)
  note w = weight_update [OF work.hyps(1)]
  have settle: "pcs s ! i = Dropped k \<Longrightarrow> settles k" for k
    using work.hyps(1) work.prems(1) nth_mem [of i "pcs s"] by (auto simp: drops_settle_def)
  from work.hyps(2) show ?case
    using work.prems(2) settle settles_cases
    by (cases rule: worker_step.cases)
      (auto simp: balanced_def w drops_def collector_defs algebra_simps)
qed (simp add: balanced_def)

definition run_inv :: "runner \<Rightarrow> bool" where
  "run_inv s \<longleftrightarrow> drops_settle s \<and> balanced s"

lemma run_inv_start: "run_inv (start_run n)"
proof -
  have zero: "weight f (replicate n Opening) = 0" if "f Opening = 0" for f
  proof -
    have "sum_list (map f (replicate n Opening)) = 0"
      by (simp add: that)
    then show ?thesis by (simp only: weight_def semiring_1_class.of_nat_0)
  qed
  show ?thesis
    by (simp add: run_inv_def drops_settle_def balanced_def start_run_def zero drops_def
        new_collector_def)
qed

lemma run_inv_reachable: "(run_step False)\<^sup>*\<^sup>* (start_run n) s \<Longrightarrow> run_inv s"
proof (induction rule: rtranclp_induct)
  case base
  show ?case by (rule run_inv_start)
next
  case (step s t)
  then show ?case
    using drops_settle_step balanced_step unfolding run_inv_def by blast
qed

lemma workers_constant: "(run_step flood)\<^sup>*\<^sup>* (start_run n) s \<Longrightarrow> length (pcs s) = n"
proof (induction rule: rtranclp_induct)
  case (step s t)
  from step.hyps(2) step.IH show ?case by (cases rule: run_step.cases) simp_all
qed (simp add: start_run_def)

lemma weight_finished: "all_finished s \<Longrightarrow> f Finished = 0 \<Longrightarrow> weight f (pcs s) = 0"
proof -
  assume "all_finished s" and "f Finished = 0"
  then have "map f (pcs s) = map (\<lambda>_. 0) (pcs s)"
    unfolding all_finished_def by (metis map_cong)
  then show ?thesis by (simp only: weight_def) simp
qed

text \<open>Every tick has seen a state in which at most one request per worker was in flight.\<close>

definition few_in_flight :: "nat \<Rightarrow> collector \<Rightarrow> bool" where
  "few_in_flight n c \<longleftrightarrow> (\<exists>k \<le> n. tx c = rx c + drops c + of_nat k)"

lemma balanced_few: "balanced s \<Longrightarrow> length (pcs s) = n \<Longrightarrow> few_in_flight n (stats s)"
proof -
  assume b: "balanced s" and n: "length (pcs s) = n"
  have "sum_list (map in_flight ps) \<le> length ps" for ps
  proof (induction ps)
    case (Cons p ps)
    have "in_flight p \<le> 1" by (cases p) simp_all
    with Cons show ?case by simp
  qed simp
  with b n show ?thesis
    by (auto simp: few_in_flight_def balanced_def weight_def)
qed

lemma ticks_few:
  "(run_step False)\<^sup>*\<^sup>* (start_run n) s \<Longrightarrow> \<forall>ob \<in> set (ticks s). few_in_flight n (ob_stats ob)"
proof (induction rule: rtranclp_induct)
  case (step s t)
  have "few_in_flight n (stats s)"
    using step.hyps(1) run_inv_reachable workers_constant balanced_few by (auto simp: run_inv_def)
  with step.hyps(2) step.IH show ?case
    by (cases rule: run_step.cases) simp_all
qed (simp add: start_run_def)

section \<open>Request numbers\<close>

fun holding :: "pc \<Rightarrow> u64 option" where
  "holding (Numbered n) = Some n"
| "holding (SendDone n) = Some n"
| "holding (Awaiting n) = Some n"
| "holding _ = None"

definition counts_up :: "runner \<Rightarrow> bool" where
  "counts_up s \<longleftrightarrow> (\<exists>k. seqno s = of_nat k \<and> issued s = map (\<lambda>i. of_nat (Suc i)) [0..<k])"

lemma counts_upE:
  assumes "counts_up s"
  obtains k where "seqno s = of_nat k" and "issued s = map (\<lambda>i. of_nat (Suc i)) [0..<k]"
  using assms unfolding counts_up_def by (elim exE conjE)

lemma counts_upI:
  "seqno s = of_nat k \<Longrightarrow> issued s = map (\<lambda>i. of_nat (Suc i)) [0..<k] \<Longrightarrow> counts_up s"
  unfolding counts_up_def by (intro exI conjI)

definition numbers_distinct :: "runner \<Rightarrow> bool" where
  "numbers_distinct s \<longleftrightarrow>
     (\<forall>i < length (pcs s). \<forall>n. holding (pcs s ! i) = Some n \<longrightarrow> n \<in> set (issued s))
     \<and> (\<forall>i < length (pcs s). \<forall>j < length (pcs s). i \<noteq> j \<longrightarrow> holding (pcs s ! i) \<noteq> None \<longrightarrow>
          holding (pcs s ! i) \<noteq> holding (pcs s ! j))"

lemma worker_step_number:
  "worker_step flood (p, q, c) (p', q', c') \<Longrightarrow>
    (p = LoopTop \<and> p' = Numbered (q + 1) \<and> q' = q + 1 \<and> numbers p p' = [q + 1])
    \<or> (q' = q \<and> numbers p p' = [] \<and> (holding p' = None \<or> holding p' = holding p))"
  by (erule worker_stepE) (simp_all add: numbers_def)

lemma counts_up_step: "run_step flood s s' \<Longrightarrow> counts_up s \<Longrightarrow> counts_up s'"
proof (induction rule: run_step.induct)
  case (work i s p q c)
  from work.prems obtain k where k: "seqno s = of_nat k" "issued s = map (\<lambda>i. of_nat (Suc i)) [0..<k]"
    by (rule counts_upE)
  from worker_step_number [OF work.hyps(2)] show ?case
  proof
    assume "pcs s ! i = LoopTop \<and> p = Numbered (seqno s + 1) \<and> q = seqno s + 1
      \<and> numbers (pcs s ! i) p = [seqno s + 1]"
    with k show ?thesis
      by (intro counts_upI [of _ "Suc k"]) (simp_all add: numbers_def add.commute)
  next
    assume "q = seqno s \<and> numbers (pcs s ! i) p = [] \<and> (holding p = None \<or> holding p = holding (pcs s ! i))"
    with k show ?thesis
      by (intro counts_upI [of _ k]) simp_all
  qed
qed (simp add: counts_up_def)

lemma of_nat_u64_inj: "i < 2 ^ 64 \<Longrightarrow> j < 2 ^ 64 \<Longrightarrow> (of_nat i :: u64) = of_nat j \<Longrightarrow> i = j"
proof -
  assume i: "i < 2 ^ 64" and j: "j < 2 ^ 64" and eq: "(of_nat i :: u64) = of_nat j"
  have "unat (of_nat k :: u64) = k" if "k < 2 ^ 64" for k
  proof -
    from that have "k < 2 ^ LENGTH(64)" by simp
    then show ?thesis by (simp only: unat_of_nat mod_less)
  qed
  from this [OF i] this [OF j] eq show "i = j" by argo
qed

lemma fresh_number:
  assumes "counts_up s" and "length (issued s) < 2 ^ 64 - 1"
  shows "seqno s + 1 \<notin> set (issued s)"
proof
  assume "seqno s + 1 \<in> set (issued s)"
  moreover from assms(1) obtain k where k: "seqno s = of_nat k" "issued s = map (\<lambda>i. of_nat (Suc i)) [0..<k]"
    by (rule counts_upE)
  ultimately have "(of_nat (Suc k) :: u64) \<in> (\<lambda>i. of_nat (Suc i)) ` {0..<k}"
    by (simp add: add.commute)
  then obtain i where i: "i < k" and eq: "(of_nat (Suc k) :: u64) = of_nat (Suc i)"
    by (elim imageE) simp
  have "Suc k = Suc i"
    by (rule of_nat_u64_inj [OF _ _ eq]) (use assms(2) k(2) i in simp_all)
  with i show False by simp
qed

lemma numbers_distinct_step:
  "run_step flood s s' \<Longrightarrow> counts_up s \<Longrightarrow> numbers_distinct s \<Longrightarrow> length (issued s') < 2 ^ 64 \<Longrightarrow>
    numbers_distinct s'"
proof (induction rule: run_step.induct)
  case (work i s p q c)
  note dist = work.prems(2) [unfolded numbers_distinct_def]
  from worker_step_number [OF work.hyps(2)] show ?case
  proof
    assume new: "pcs s ! i = LoopTop \<and> p = Numbered (seqno s + 1) \<and> q = seqno s + 1
      \<and> numbers (pcs s ! i) p = [seqno s + 1]"
    have "seqno s + 1 \<notin> set (issued s)"
      using work.prems(1,3) new by (intro fresh_number) (simp_all add: numbers_def)
    then have fresh: "holding (pcs s ! j) \<noteq> Some (seqno s + 1)" if "j < length (pcs s)" for j
      using dist that by blast
    have "numbers_distinct (s\<lparr>pcs := (pcs s)[i := Numbered n], issued := issued s @ [n]\<rparr>)"
      if n: "\<And>j. j < length (pcs s) \<Longrightarrow> holding (pcs s ! j) \<noteq> Some n" for n
      using dist n work.hyps(1) by (auto simp: numbers_distinct_def nth_list_update) metis+
    from this [OF fresh] new show ?thesis
      by (simp add: numbers_distinct_def numbers_def disj_commute)
  next
    assume same: "q = seqno s \<and> numbers (pcs s ! i) p = []
      \<and> (holding p = None \<or> holding p = holding (pcs s ! i))"
    with dist work.hyps(1) show ?thesis
      by (auto simp: numbers_distinct_def nth_list_update) metis+
  qed
qed (simp add: numbers_distinct_def)

lemma issued_grows: "run_step flood s s' \<Longrightarrow> length (issued s) \<le> length (issued s')"
  by (auto elim!: run_step.cases)

lemma numbers_reachable:
  "(run_step flood)\<^sup>*\<^sup>* (start_run n) s \<Longrightarrow>
    counts_up s \<and> (length (issued s) < 2 ^ 64 \<longrightarrow> numbers_distinct s)"
proof (induction rule: rtranclp_induct)
  case base
  show ?case by (simp add: counts_up_def numbers_distinct_def start_run_def)
next
  case (step s t)
  then show ?case
    using counts_up_step [OF step.hyps(2)] numbers_distinct_step [OF step.hyps(2)]
      issued_grows [OF step.hyps(2)] by auto
qed

section \<open>Flood mode\<close>

definition only_sends :: "runner \<Rightarrow> bool" where
  "only_sends s \<longleftrightarrow>
     (\<forall>p \<in> set (pcs s). in_flight p = 0 \<and> unrecorded p = 0)
     \<and> rx (stats s) = 0 \<and> drops (stats s) = 0 \<and> latencyUS (stats s) = []
     \<and> (\<forall>ob \<in> set (ticks s). rx (ob_stats ob) = 0 \<and> latencyUS (ob_stats ob) = [])"

lemma only_sends_step: "run_step True s s' \<Longrightarrow> only_sends s \<Longrightarrow> only_sends s'"
proof (induction rule: run_step.induct)
  case (work i s p q c)
  have old: "in_flight (pcs s ! i) = 0 \<and> unrecorded (pcs s ! i) = 0"
    using work.hyps(1) work.prems nth_mem [of i "pcs s"] by (auto simp: only_sends_def)
  have "in_flight p = 0 \<and> unrecorded p = 0 \<and> rx c = rx (stats s) \<and> drops c = drops (stats s)
      \<and> latencyUS c = latencyUS (stats s)"
    using work.hyps(2) old by (cases rule: worker_step.cases) (auto simp: drops_def collector_defs)
  with work.prems set_update_subset_insert [of "pcs s" i p] show ?case
    by (fastforce simp: only_sends_def)
qed (simp add: only_sends_def)

lemma only_sends_reachable: "(run_step True)\<^sup>*\<^sup>* (start_run n) s \<Longrightarrow> only_sends s"
proof (induction rule: rtranclp_induct)
  case base
  show ?case by (auto simp: only_sends_def start_run_def new_collector_def drops_def)
qed (rule only_sends_step)

section \<open>Sequential workers are runs\<close>

lemma steps2: "R a b \<Longrightarrow> R b c \<Longrightarrow> R\<^sup>*\<^sup>* a c"
  by (rule converse_rtranclp_into_rtranclp) auto

lemma steps3: "R a b \<Longrightarrow> R b c \<Longrightarrow> R c d \<Longrightarrow> R\<^sup>*\<^sup>* a d"
  by (rule converse_rtranclp_into_rtranclp) (auto intro: steps2)

lemma latency_round_steps:
  assumes "latency_round r ch dl payload ts (q, c, s) = Some (q', c', s')"
  shows "(worker_step False)\<^sup>*\<^sup>* (LoopTop, q, c) (LoopTop, q', c')"
proof -
  obtain t1 t2 t3 where ts: "ts = (t1, t2, t3)" by (cases ts)
  have top: "worker_step False (LoopTop, q, c) (Numbered (q + 1), q + 1, c)"
    by (rule take_number)
  from assms obtain e s1 where send: "ch_Send ch dl (encode_or_nil (request_frame MsgReq (q + 1) t1 (ch_ID ch) payload)) s
      = Some (e, s1)"
    by (auto simp: latency_round_def send_request_def ts Let_def split: option.splits)
  show ?thesis
  proof (cases e)
    case (Some err)
    with assms send have "q' = q + 1" "c' = AddDropSendErr 1 c"
      by (auto simp: latency_round_def send_request_def ts Let_def)
    with steps3 [where R = "worker_step False", OF top send_failed count_send_error] show ?thesis by simp
  next
    case None
    with assms send obtain raw s2 where "ch_Recv ch (with_timeout dl t2 (recvTimeout r)) s1 = Some (raw, s2)"
      by (auto simp: latency_round_def send_request_def ts Let_def split: option.splits)
    with assms send None have q': "q' = q + 1" and c': "c' = settle (q + 1) t3 raw (AddTx 1 c)"
      by (auto simp: latency_round_def send_request_def ts Let_def)
    have sent: "(worker_step False)\<^sup>*\<^sup>* (LoopTop, q, c) (Awaiting (q + 1), q + 1, AddTx 1 c)"
      using steps3 [where R = "worker_step False", OF top send_ok count_tx] by simp
    have "(worker_step False)\<^sup>*\<^sup>* (Awaiting (q + 1), q + 1, AddTx 1 c) (LoopTop, q + 1, c')"
    proof (cases "response_verdict (q + 1) raw")
      case (Inl k)
      from steps2 [where R = "worker_step False", OF recv_dropped [OF Inl] count_drop] show ?thesis
        by (simp add: c' settle_def Inl)
    next
      case (Inr stamp)
      from steps3 [where R = "worker_step False", OF recv_accepted [OF Inr] count_rx count_latency] show ?thesis
        by (simp add: c' settle_def Inr)
    qed
    with sent q' show ?thesis by simp
  qed
qed

lemma latency_rounds_steps:
  "latency_rounds r ch dl payload ts (q, c, s) = Some (q', c', s') \<Longrightarrow>
    (worker_step False)\<^sup>*\<^sup>* (LoopTop, q, c) (LoopTop, q', c')"
proof (induction ts arbitrary: q c s)
  case (Cons t ts)
  from Cons.prems obtain q1 c1 s1 where "latency_round r ch dl payload t (q, c, s) = Some (q1, c1, s1)"
    and rest: "latency_rounds r ch dl payload ts (q1, c1, s1) = Some (q', c', s')"
    by (auto split: option.splits)
  from latency_round_steps [OF this(1)] Cons.IH [OF rest] show ?case
    by (rule rtranclp_trans)
qed simp

text \<open>The steps of one worker are steps of the run.\<close>

lemma worker_steps_run:
  assumes "(worker_step flood)\<^sup>*\<^sup>* (pcs s ! i, seqno s, stats s) (p, q, c)" and "i < length (pcs s)"
  shows "\<exists>ids. (run_step flood)\<^sup>*\<^sup>* s
    (s\<lparr>seqno := q, stats := c, pcs := (pcs s)[i := p], issued := issued s @ ids\<rparr>)"
  using assms(1)
proof (induction "(p, q, c)" arbitrary: p q c rule: rtranclp_induct)
  case base
  have "s\<lparr>seqno := seqno s, stats := stats s, pcs := (pcs s)[i := pcs s ! i], issued := issued s @ []\<rparr> = s"
    by simp
  then show ?case by (metis rtranclp.rtrancl_refl)
next
  case (step y)
  obtain p1 q1 c1 where y: "y = (p1, q1, c1)" by (cases y)
  from step.hyps(3) [OF y] obtain ids where run: "(run_step flood)\<^sup>*\<^sup>* s
      (s\<lparr>seqno := q1, stats := c1, pcs := (pcs s)[i := p1], issued := issued s @ ids\<rparr>)"
    by blast
  let ?t = "s\<lparr>seqno := q1, stats := c1, pcs := (pcs s)[i := p1], issued := issued s @ ids\<rparr>"
  have "run_step flood ?t (?t\<lparr>seqno := q, stats := c, pcs := (pcs ?t)[i := p],
      issued := issued ?t @ numbers (pcs ?t ! i) p\<rparr>)"
    using step.hyps(2) assms(2) by (intro work) (simp_all add: y)
  then have "run_step flood ?t (s\<lparr>seqno := q, stats := c, pcs := (pcs s)[i := p],
      issued := issued s @ ids @ numbers p1 p\<rparr>)"
    using assms(2) by simp
  with run show ?case
    by (meson rtranclp.rtrancl_into_rtrancl)
qed

text \<open>
  A step of a run in which no worker gets a session: every worker is still opening its session
  or has returned because that failed.
\<close>

definition unopened_step :: "bool \<Rightarrow> runner \<Rightarrow> runner \<Rightarrow> bool" where
  "unopened_step flood s s' \<longleftrightarrow> run_step flood s s' \<and> set (pcs s') \<subseteq> {Opening, Finished}"

definition nothing_seen :: "runner \<Rightarrow> bool" where
  "nothing_seen s \<longleftrightarrow> set (pcs s) \<subseteq> {Opening, Finished} \<and> stats s = new_collector
     \<and> (\<forall>ob \<in> set (ticks s). ob_stats ob = new_collector)"

lemma nothing_seen_step:
  assumes "unopened_step flood s s'" and "nothing_seen s"
  shows "nothing_seen s'"
proof -
  from assms(1) have step: "run_step flood s s'" and left: "set (pcs s') \<subseteq> {Opening, Finished}"
    by (auto simp: unopened_step_def)
  from step show ?thesis
  proof (cases rule: run_step.cases)
    case (work i p q c)
    then have "p \<in> {Opening, Finished}"
      using left set_update_memI [of i "pcs s" p] by auto
    moreover have "pcs s ! i \<in> {Opening, Finished}"
      using assms(2) work(2) nth_mem [of i "pcs s"] unfolding nothing_seen_def by blast
    ultimately have "c = stats s"
      using worker_stepE [OF work(3), of "c = stats s"] by auto
    with work(1) left assms(2) show ?thesis by (simp add: nothing_seen_def)
  next
    case (tick now d)
    with assms(2) show ?thesis by (simp add: nothing_seen_def)
  qed
qed

lemma nothing_seen_reachable: "(unopened_step flood)\<^sup>*\<^sup>* (start_run n) s \<Longrightarrow> nothing_seen s"
proof (induction rule: rtranclp_induct)
  case base
  show ?case by (auto simp: nothing_seen_def start_run_def)
next
  case (step s t)
  then show ?case by (blast intro: nothing_seen_step)
qed

text \<open>The first worker of two fails to connect, the reporter ticks, the second one fails.\<close>

lemma unopened_run:
  "\<exists>s. (unopened_step flood)\<^sup>*\<^sup>* (start_run 2) s \<and> all_finished s \<and> length (ticks s) = 1"
proof -
  let ?s1 = "(start_run 2)\<lparr>pcs := [Finished, Opening]\<rparr>"
  let ?s2 = "?s1\<lparr>ticks := [\<lparr>ob_now = 0, ob_since = second, ob_stats = new_collector\<rparr>]\<rparr>"
  let ?s3 = "?s2\<lparr>pcs := [Finished, Finished]\<rparr>"
  have "unopened_step flood (start_run 2) ?s1"
    using work [of 0 "start_run 2" flood Finished 0 new_collector] open_failed [of flood 0 new_collector]
    by (simp add: start_run_def unopened_step_def numbers_def numeral_2_eq_2)
  moreover have "unopened_step flood ?s1 ?s2"
    using tick [of flood ?s1 0 second] by (simp add: start_run_def unopened_step_def)
  moreover have "unopened_step flood ?s2 ?s3"
    using work [of 1 ?s2 flood Finished 0 new_collector] open_failed [of flood 0 new_collector]
    by (simp add: start_run_def unopened_step_def numbers_def)
  ultimately have "(unopened_step flood)\<^sup>*\<^sup>* (start_run 2) ?s3"
    by (rule steps3)
  then show ?thesis
    by (intro exI [of _ ?s3]) (simp add: all_finished_def)
qed

text \<open>A channel on which nothing works, for examples.\<close>

definition dead_channel :: "unit channel" where
  "dead_channel = \<lparr>ch_ID = 0, ch_Send = (\<lambda>_ _ s. Some (None, s)),
     ch_Recv = (\<lambda>_ s. Some (Inl DeadlineExceeded, s))\<rparr>"

lemma dead_round:
  "latency_rounds r dead_channel dl [] [(0, 0, 0)] (0, new_collector, ()) =
    Some (1, AddDropTimeout 1 (AddTx 1 new_collector), ())"
  by (simp add: latency_round_def send_request_def dead_channel_def settle_def response_verdict_def
      isTimeoutError_def)

lemma dead_run:
  "\<exists>s. (run_step False)\<^sup>*\<^sup>* (start_run 1) s \<and> all_finished s
    \<and> stats s = AddDropTimeout 1 (AddTx 1 new_collector)"
proof -
  have "(worker_step False)\<^sup>*\<^sup>* (Opening, 0, new_collector) (LoopTop, 0, new_collector)"
    using open_ok by blast
  also have "(worker_step False)\<^sup>*\<^sup>* (LoopTop, 0, new_collector) (LoopTop, 1, AddDropTimeout 1 (AddTx 1 new_collector))"
    by (rule latency_rounds_steps [OF dead_round])
  also have "(worker_step False)\<^sup>*\<^sup>* \<dots> (Finished, 1, AddDropTimeout 1 (AddTx 1 new_collector))"
    using context_done by blast
  finally have "(worker_step False)\<^sup>*\<^sup>* (pcs (start_run 1) ! 0, seqno (start_run 1), stats (start_run 1))
      (Finished, 1, AddDropTimeout 1 (AddTx 1 new_collector))"
    by (simp add: start_run_def)
  from worker_steps_run [OF this] show ?thesis
    by (fastforce simp: start_run_def all_finished_def)
qed

text \<open>A worker that has sent its first request.\<close>

lemma sending_run:
  "\<exists>s. (run_step flood)\<^sup>*\<^sup>* (start_run 1) s \<and> ticks s = [] \<and> stats s = AddTx 1 new_collector"
proof -
  have "(worker_step flood)\<^sup>*\<^sup>* (Opening, 0, new_collector) (Numbered (0 + 1), 0 + 1, new_collector)"
    by (rule steps2 [where R = "worker_step flood", OF open_ok take_number])
  also have "(worker_step flood)\<^sup>*\<^sup>* \<dots> (if flood then LoopTop else Awaiting (0 + 1), 0 + 1, AddTx 1 new_collector)"
    by (rule steps2 [where R = "worker_step flood", OF send_ok count_tx])
  finally have "(worker_step flood)\<^sup>*\<^sup>* (pcs (start_run 1) ! 0, seqno (start_run 1), stats (start_run 1))
      (if flood then LoopTop else Awaiting (0 + 1), 0 + 1, AddTx 1 new_collector)"
    by (simp add: start_run_def)
  from worker_steps_run [OF this] show ?thesis
    by (fastforce simp: start_run_def)
qed

section \<open>Properties\<close>

text \<open>C1: Conservation of requests. When all workers of a latency run have ended, whatever the
  scheduler, the network and the clock did, the final row accounts for every request exactly
  once: sent or failed to be sent, and every sent one answered or dropped for one reason; the
  number of recorded round-trip times is the number of answers. (All counts are \<open>uint64\<close>.)\<close>

theorem requests_accounted:
  assumes "(run_step False)\<^sup>*\<^sup>* (start_run n) s" and "all_finished s"
    and "RunLatency cfg r (trace_of s now since) = Inr rows"
  shows "Tx (last rows) + DropSendErr (last rows) = seqno s
    \<and> Tx (last rows) + DropSendErr (last rows) = Rx (last rows) + Drop (last rows)
    \<and> Rx (last rows) = of_nat (length (latencyUS (stats s)))"
proof -
  have "balanced s"
    using run_inv_reachable [OF assms(1)] by (simp add: run_inv_def)
  moreover have "last rows = take_snapshot ''latency'' cfg (PPS r) (worker_count r)
      \<lparr>ob_now = now, ob_since = since, ob_stats = stats s\<rparr>"
    using assms(3) by (auto simp: RunLatency_rows trace_of_def)
  ultimately show ?thesis
    by (simp add: balanced_def weight_finished [OF assms(2)] drops_def)
qed

theorem requests_accounted_witness:
  "\<exists>s rows. RunLatency (TransportPart Default) (RunPart Default) (trace_of s 0 0) = Inr rows \<and> Tx (last rows) = 1
    \<and> Tx (last rows) + DropSendErr (last rows) = Rx (last rows) + Drop (last rows)"
proof -
  let ?cfg = "TransportPart Default" and ?r = "RunPart Default"
  obtain s where s: "(run_step False)\<^sup>*\<^sup>* (start_run 1) s" "all_finished s"
    "stats s = AddDropTimeout 1 (AddTx 1 new_collector)"
    using dead_run by blast
  let ?rows = "map (take_snapshot ''latency'' ?cfg (PPS ?r) (worker_count ?r))
    (rt_ticks (trace_of s 0 0) @ [rt_final (trace_of s 0 0)])"
  have rows: "RunLatency ?cfg ?r (trace_of s 0 0) = Inr ?rows"
    by (rule RunLatency_rows)
  moreover have "Tx (last ?rows) = 1"
    using s(3) by (simp add: trace_of_def collector_defs)
  ultimately show ?thesis
    using requests_accounted [OF s(1,2) rows] by blast
qed

text \<open>C10: In every row reported during a latency run, at most one request per worker has been
  counted as sent but not yet as answered or dropped.\<close>

theorem in_flight_bounded:
  assumes "(run_step False)\<^sup>*\<^sup>* (start_run n) s"
    and "RunLatency cfg r (trace_of s now since) = Inr rows" and "row \<in> set rows"
  shows "\<exists>k \<le> n. Tx row + DropSendErr row = Rx row + Drop row + of_nat k"
proof -
  have "few_in_flight n (stats s)"
    using run_inv_reachable [OF assms(1)] workers_constant [OF assms(1)]
    by (auto simp: run_inv_def intro: balanced_few)
  with ticks_few [OF assms(1)] assms(2,3) obtain ob
    where row: "row = take_snapshot ''latency'' cfg (PPS r) (worker_count r) ob"
      and "few_in_flight n (ob_stats ob)"
    by (auto simp: RunLatency_rows trace_of_def)
  then show ?thesis
    by (fastforce simp: few_in_flight_def drops_def)
qed

theorem in_flight_bounded_witness:
  "\<exists>s row k. RunLatency (TransportPart Default) (RunPart Default) (trace_of s 0 0) = Inr [row]
    \<and> Tx row = 1 \<and> Rx row + Drop row = 0 \<and> k \<le> 1 \<and> Tx row + DropSendErr row = Rx row + Drop row + of_nat k"
proof -
  let ?cfg = "TransportPart Default" and ?r = "RunPart Default"
  obtain s where run: "(run_step False)\<^sup>*\<^sup>* (start_run 1) s" and s: "ticks s = []" "stats s = AddTx 1 new_collector"
    using sending_run [of False] by auto
  let ?row = "take_snapshot ''latency'' ?cfg (PPS ?r) (worker_count ?r) (rt_final (trace_of s 0 0))"
  have rows: "RunLatency ?cfg ?r (trace_of s 0 0) = Inr [?row]"
    by (simp add: RunLatency_rows trace_of_def s)
  have "Tx ?row = 1" "Rx ?row + Drop ?row = 0"
    by (simp_all add: trace_of_def s collector_defs)
  with in_flight_bounded [OF run rows list.set_intros(1)] rows show ?thesis by blast
qed

text \<open>C9: Request numbers are handed out in order, \<open>1, 2, 3, ...\<close>, each once, as long as fewer than
  \<open>2^64\<close> have been handed out; in particular two workers never wait for the same number, so the
  comparison of a response's number with the own one cannot confuse two workers.\<close>

theorem request_numbers_unique:
  assumes "(run_step flood)\<^sup>*\<^sup>* (start_run n) s" and "length (issued s) < 2 ^ 64"
  shows "issued s = map (\<lambda>i. of_nat (Suc i)) [0..<length (issued s)] \<and> distinct (issued s)
    \<and> (\<forall>i < length (pcs s). \<forall>j < length (pcs s). i \<noteq> j \<longrightarrow>
        (\<forall>m. \<not> (pcs s ! i = Awaiting m \<and> pcs s ! j = Awaiting m)))"
proof -
  from numbers_reachable [OF assms(1)] assms(2) have up: "counts_up s" and dist: "numbers_distinct s"
    by blast+
  from up obtain k where "issued s = map (\<lambda>i. of_nat (Suc i)) [0..<k]"
    by (rule counts_upE)
  moreover from this have k: "length (issued s) = k" by simp
  ultimately have iss: "issued s = map (\<lambda>i. of_nat (Suc i)) [0..<length (issued s)]" by (simp only:)
  have "inj_on (\<lambda>i. of_nat (Suc i) :: u64) {0..<k}"
  proof (rule inj_onI)
    fix i j
    assume "i \<in> {0..<k}" "j \<in> {0..<k}" and eq: "(of_nat (Suc i) :: u64) = of_nat (Suc j)"
    then have "Suc i < 2 ^ 64" "Suc j < 2 ^ 64"
      using assms(2) by (simp_all add: k)
    from of_nat_u64_inj [OF this eq] show "i = j" by simp
  qed
  then have "distinct (map (\<lambda>i. of_nat (Suc i) :: u64) [0..<k])"
    by (simp only: distinct_map set_upt distinct_upt simp_thms)
  then have "distinct (issued s)"
    using iss k by metis
  with iss dist show ?thesis
    unfolding numbers_distinct_def by (metis holding.simps(3) option.distinct(1))
qed

theorem request_numbers_unique_witness:
  "\<exists>s. (run_step True)\<^sup>*\<^sup>* (start_run 1) s \<and> issued s = [1] \<and> distinct (issued s)"
proof -
  let ?s = "(start_run 1)\<lparr>pcs := [Numbered 1], seqno := 1, issued := [1]\<rparr>"
  have "run_step True (start_run 1) ((start_run 1)\<lparr>seqno := 0, stats := new_collector,
      pcs := (pcs (start_run 1))[0 := LoopTop], issued := issued (start_run 1) @ numbers (pcs (start_run 1) ! 0) LoopTop\<rparr>)"
    by (rule work) (simp_all add: start_run_def open_ok)
  then have "run_step True (start_run 1) ((start_run 1)\<lparr>pcs := [LoopTop]\<rparr>)"
    by (simp add: start_run_def numbers_def)
  moreover have "run_step True ((start_run 1)\<lparr>pcs := [LoopTop]\<rparr>) (((start_run 1)\<lparr>pcs := [LoopTop]\<rparr>)\<lparr>seqno := 0 + 1,
      stats := new_collector, pcs := [LoopTop][0 := Numbered (0 + 1)], issued := [] @ numbers ([LoopTop] ! 0) (Numbered (0 + 1))\<rparr>)"
    using work [of 0 "(start_run 1)\<lparr>pcs := [LoopTop]\<rparr>" True "Numbered (0 + 1)" "0 + 1" new_collector]
      take_number [of True 0 new_collector]
    by (simp add: start_run_def)
  ultimately have run2: "(run_step True)\<^sup>*\<^sup>* (start_run 1) ?s"
    using steps2 [where R = "run_step True"] by (fastforce simp: start_run_def numbers_def)
  then have "distinct (issued ?s)"
    using request_numbers_unique [OF run2] by simp
  with run2 show ?thesis by (intro exI [of _ ?s]) simp
qed

text \<open>C17: Flood mode measures no throughput: nothing is ever received, so every row of a flood run,
  the last one included, reports zero answers, a rate of zero and zero latencies, however many
  packets were sent.\<close>

theorem flood_rows_zero:
  assumes "(run_step True)\<^sup>*\<^sup>* (start_run n) s"
    and "RunFlood cfg r (trace_of s now since) = Inr rows" and "row \<in> set rows"
  shows "Rx row = 0 \<and> AchievedPPS row = 0 \<and> P50US row = 0 \<and> P95US row = 0 \<and> P99US row = 0"
proof -
  from only_sends_reachable [OF assms(1)] have "rx (stats s) = 0 \<and> latencyUS (stats s) = []
      \<and> (\<forall>ob \<in> set (ticks s). rx (ob_stats ob) = 0 \<and> latencyUS (ob_stats ob) = [])"
    by (simp add: only_sends_def)
  with assms(2,3) obtain ob where "row = take_snapshot ''flood'' cfg (PPS r) (worker_count r) ob"
    and "rx (ob_stats ob) = 0 \<and> latencyUS (ob_stats ob) = []"
    by (auto simp: RunFlood_rows trace_of_def)
  then show ?thesis
    by (simp add: take_snapshot_def Collector_Snapshot_def percentiles_def Let_def)
qed

theorem flood_rows_zero_witness:
  "\<exists>s row. RunFlood (TransportPart Default) (RunPart Default) (trace_of s 0 0) = Inr [row]
    \<and> Tx row = 1 \<and> Rx row = 0 \<and> AchievedPPS row = 0"
proof -
  let ?cfg = "TransportPart Default" and ?r = "RunPart Default"
  obtain s where run: "(run_step True)\<^sup>*\<^sup>* (start_run 1) s" and s: "ticks s = []" "stats s = AddTx 1 new_collector"
    using sending_run [of True] by auto
  let ?row = "take_snapshot ''flood'' ?cfg (PPS ?r) (worker_count ?r)
    ((rt_final (trace_of s 0 0))\<lparr>ob_since := Duration ?r\<rparr>)"
  have rows: "RunFlood ?cfg ?r (trace_of s 0 0) = Inr [?row]"
    by (simp add: RunFlood_rows trace_of_def s)
  have "Tx ?row = 1"
    by (simp add: trace_of_def s collector_defs)
  with flood_rows_zero [OF run rows list.set_intros(1)] rows show ?thesis by blast
qed

text \<open>C18: A run in which no worker can connect looks like a successful one. Whatever the scheduler
  and the reporter do, if every call of \<open>r.open\<close> fails then the run, in latency mode as in flood
  mode, returns no error, and every row it reports, the last one included, is all zeros: the
  errors are dropped and not even a failed send is counted.\<close>

theorem dial_failures_hidden:
  assumes "(unopened_step flood)\<^sup>*\<^sup>* (start_run n) s" and "all_finished s"
  shows "\<exists>rows. (if flood then RunFlood else RunLatency) cfg r (trace_of s now since) = Inr rows
    \<and> length rows = length (ticks s) + 1
    \<and> (\<forall>row \<in> set rows. Tx row = 0 \<and> Rx row = 0 \<and> Drop row = 0 \<and> DropSendErr row = 0
        \<and> AchievedPPS row = 0)"
proof -
  from nothing_seen_reachable [OF assms(1)] have "stats s = new_collector"
    "\<forall>ob \<in> set (ticks s). ob_stats ob = new_collector"
    by (simp_all add: nothing_seen_def)
  moreover have "AchievedPPS (take_snapshot m cfg p ch ob) = 0" if "ob_stats ob = new_collector" for m p ch ob
    using that by (simp add: take_snapshot_def Collector_Snapshot_def new_collector_def Let_def split_beta)
  ultimately show ?thesis
    by (auto simp: RunFlood_rows RunLatency_rows trace_of_def new_collector_def)
qed

theorem dial_failures_hidden_witness:
  "\<exists>s row1 row2. (unopened_step False)\<^sup>*\<^sup>* (start_run 2) s
    \<and> RunLatency (TransportPart Default) (RunPart Default) (trace_of s 0 0) = Inr [row1, row2]
    \<and> Tx row2 = 0 \<and> Drop row1 = 0 \<and> DropSendErr row2 = 0"
proof -
  obtain s where s: "(unopened_step False)\<^sup>*\<^sup>* (start_run 2) s" "all_finished s" "length (ticks s) = 1"
    using unopened_run by blast
  from dial_failures_hidden [OF s(1,2), of "TransportPart Default" "RunPart Default" 0 0] s(3)
  obtain rows where rows: "RunLatency (TransportPart Default) (RunPart Default) (trace_of s 0 0) = Inr rows"
    "length rows = 2" "\<forall>row \<in> set rows. Tx row = 0 \<and> Drop row = 0 \<and> DropSendErr row = 0"
    by auto
  then obtain row1 row2 where "rows = [row1, row2]"
    by (auto simp: numeral_2_eq_2 length_Suc_conv)
  with rows s(1) show ?thesis by auto
qed

text \<open>The code of a worker, run on its own over any channel, is one of the runs of the step
  relation: whatever number of rounds it makes, some run with one worker ends in the same
  counter and collector.\<close>

lemma sequential_worker_is_run:
  assumes "latency_rounds r ch dl payload ts (0, new_collector, s0) = Some (q, c, s1)"
  shows "\<exists>s. (run_step False)\<^sup>*\<^sup>* (start_run 1) s \<and> all_finished s \<and> seqno s = q \<and> stats s = c"
proof -
  have "(worker_step False)\<^sup>*\<^sup>* (Opening, 0, new_collector) (LoopTop, 0, new_collector)"
    using open_ok by blast
  also have "(worker_step False)\<^sup>*\<^sup>* (LoopTop, 0, new_collector) (LoopTop, q, c)"
    by (rule latency_rounds_steps [OF assms])
  also have "(worker_step False)\<^sup>*\<^sup>* \<dots> (Finished, q, c)"
    using context_done by blast
  finally have "(worker_step False)\<^sup>*\<^sup>* (pcs (start_run 1) ! 0, seqno (start_run 1), stats (start_run 1))
      (Finished, q, c)"
    by (simp add: start_run_def)
  from worker_steps_run [OF this] show ?thesis
    by (fastforce simp: start_run_def all_finished_def)
qed

end
