(* ===== verification/App.thy ===== *)
theory App
  imports Load Nas Kernel_Channel
begin

text \<open>
  \<open>pkg/app\<close>: the AMF server (\<open>amf.go\<close>) and the gNB client (\<open>gnb.go\<close>), and the exchange
  between them. The lemmas about sessions are proved for any transport that keeps the
  contract \<open>message_channel\<close>.
\<close>

section \<open>The server\<close>

text \<open>The reply to a request; \<open>buf, _ := resp.Encode()\<close> and \<open>_ = ch.Send(...)\<close> drop the errors.\<close>

definition amf_response :: "frame \<Rightarrow> frame" where
  "amf_response frm =
     \<lparr>MsgType = MsgResp, SeqID = SeqID frm, SendTSNS = SendTSNS frm, ChannelID = ChannelID frm,
      Payload = Payload frm\<rparr>"

definition amf_handle :: "'s channel \<Rightarrow> int option \<Rightarrow> bytes \<Rightarrow> 's \<Rightarrow> 's option" where
  "amf_handle ch dl raw s =
     (case frame_decode raw of
        Inl err \<Rightarrow> Some s
      | Inr frm \<Rightarrow>
          if MsgType frm = MsgReq
          then map_option snd (ch_Send ch dl (encode_or_nil (amf_response frm)) s)
          else if MsgType frm = MsgFlood then Some s
          else Some s)"

text \<open>
  The loop of \<open>handleSession\<close> for \<open>n\<close> rounds before the context is done; an error of \<open>Recv\<close>
  ends it.
\<close>

fun handleSession :: "'s channel \<Rightarrow> int option \<Rightarrow> nat \<Rightarrow> 's \<Rightarrow> 's option" where
  "handleSession ch dl 0 s = Some s"
| "handleSession ch dl (Suc n) s =
     (case ch_Recv ch dl s of
        None \<Rightarrow> None
      | Some (Inl err, s) \<Rightarrow> Some s
      | Some (Inr raw, s) \<Rightarrow>
          (case amf_handle ch dl raw s of
             None \<Rightarrow> None
           | Some s \<Rightarrow> handleSession ch dl n s))"

text \<open>
  The accept loop of \<open>AMFServer.Run\<close>: for each round, whether the context was done at its
  start (with its error), the outcome of \<open>Accept\<close>, and the error of the context after it. The
  result is the returned error and the sessions that were handed to a goroutine.
\<close>

record 'sess accept_round =
  ar_done :: "go_error option"
  ar_result :: "go_error + 'sess"
  ar_ctx_after :: "go_error option"

fun amf_accept_loop :: "'sess accept_round list \<Rightarrow> 'sess list \<Rightarrow> (go_error option \<times> 'sess list) option" where
  "amf_accept_loop [] started = None"
| "amf_accept_loop (a # as) started =
     (case ar_done a of
        Some err \<Rightarrow> Some (Some err, started)
      | None \<Rightarrow>
          (case ar_result a of
             Inl err \<Rightarrow>
               if ar_ctx_after a \<noteq> None then Some (None, started)
               else amf_accept_loop as started
           | Inr sess \<Rightarrow> amf_accept_loop as (started @ [sess])))"

definition AMFServer_Run :: "go_error + 'l \<Rightarrow> ('l \<Rightarrow> 'sess accept_round list) \<Rightarrow>
    (go_error option \<times> 'sess list) option" where
  "AMFServer_Run listen rounds =
     (case listen of
        Inl err \<Rightarrow> Some (Some err, [])
      | Inr lst \<Rightarrow> amf_accept_loop (rounds lst) [])"

section \<open>The client\<close>

definition go_bytes :: "string \<Rightarrow> bytes" where
  "go_bytes s = map (\<lambda>c. of_nat (of_char c)) s"

definition gnb_payload :: "(string \<Rightarrow> go_error + bytes) \<Rightarrow> run_config \<Rightarrow> go_error + bytes" where
  "gnb_payload read_file r =
     (if NASPath r \<noteq> [] then LoadTemplate read_file (NASPath r) (NASHex r)
      else Inr (go_bytes ''ping''))"

text \<open>
  \<open>GNBClient.Run\<close>: \<open>latency\<close>, \<open>sweep\<close> and \<open>flood\<close> are what the runs with this payload
  observe, \<open>write_csv\<close> is \<open>metrics.WriteCSV\<close> on the environment. The result is the returned
  error, the rows, and the state after writing the CSV file.
\<close>

definition GNBClient_Run :: "(string \<Rightarrow> go_error + bytes) \<Rightarrow> (bytes \<Rightarrow> run_trace) \<Rightarrow>
    (bytes \<Rightarrow> nat \<Rightarrow> run_trace) \<Rightarrow> (string \<Rightarrow> snapshot list \<Rightarrow> go_error option \<times> 'w option) \<Rightarrow>
    config \<Rightarrow> run_config \<Rightarrow> go_error option \<times> snapshot list \<times> 'w option" where
  "GNBClient_Run read_file observed sweep_observed write_csv cfg r =
     (case gnb_payload read_file r of
        Inl err \<Rightarrow> (Some err, [], None)
      | Inr payload \<Rightarrow>
          (case (if RunMode r = ''latency'' then RunLatency cfg r (observed payload)
                 else if RunMode r = ''throughput'' then RunThroughputSweep cfg r (sweep_observed payload)
                 else if RunMode r = ''flood'' then RunFlood cfg r (observed payload)
                 else Inl (Errorf ''unknown mode %q'' [] [RunMode r])) of
             Inl err \<Rightarrow> (Some err, [], None)
           | Inr rows \<Rightarrow>
               if OutputCSV r \<noteq> [] then
                 (case write_csv (OutputCSV r) rows of
                    (Some err, w) \<Rightarrow> (Some err, [], w)
                  | (None, w) \<Rightarrow> (None, rows, w))
               else (None, rows, None)))"

section \<open>An exchange over any transport\<close>

text \<open>The frames that a worker sends in rounds with the given clock readings.\<close>

fun request_frames :: "u16 \<Rightarrow> bytes \<Rightarrow> u64 \<Rightarrow> (int \<times> int \<times> int) list \<Rightarrow> frame list" where
  "request_frames chid payload q [] = []"
| "request_frames chid payload q (t # ts) =
     request_frame MsgReq (q + 1) (fst t) chid payload # request_frames chid payload (q + 1) ts"

text \<open>The collector after rounds whose responses are all accepted.\<close>

fun answered :: "(int \<times> int \<times> int) list \<Rightarrow> collector \<Rightarrow> collector" where
  "answered [] c = c"
| "answered (t # ts) c =
     answered ts (AddLatency (since_stamp (snd (snd t)) (of_int (fst t))) (AddRx 1 (AddTx 1 c)))"

text \<open>The bytes of a list of frames on the wire.\<close>

definition wire_bytes :: "(bytes \<Rightarrow> bytes) \<Rightarrow> frame list \<Rightarrow> bytes" where
  "wire_bytes on_wire fs = concat (map (on_wire \<circ> encode_or_nil) fs)"

lemma wire_bytes_simps [simp]:
  "wire_bytes on_wire [] = []"
  "wire_bytes on_wire (f # fs) = on_wire (encode_or_nil f) @ wire_bytes on_wire fs"
  by (simp_all add: wire_bytes_def)

text \<open>The bytes of requests and of the answers to them.\<close>

definition exchange_bytes :: "(bytes \<Rightarrow> bytes) \<Rightarrow> frame list \<Rightarrow> nat" where
  "exchange_bytes on_wire fs = length (wire_bytes on_wire fs) + length (wire_bytes on_wire (map amf_response fs))"

lemma exchange_bytes_simps [simp]:
  "exchange_bytes on_wire [] = 0"
  "exchange_bytes on_wire (f # fs) = length (on_wire (encode_or_nil f))
    + length (on_wire (encode_or_nil (amf_response f))) + exchange_bytes on_wire fs"
  by (simp_all add: exchange_bytes_def)

text \<open>The deadline of the receive in a round with clock readings \<open>t\<close>.\<close>

definition round_deadline :: "run_config \<Rightarrow> int option \<Rightarrow> int \<times> int \<times> int \<Rightarrow> int option" where
  "round_deadline r dl t = with_timeout dl (fst (snd t)) (recvTimeout r)"

lemma encode_or_nil_encodable: "encodable f \<Longrightarrow> frame_encode f = Inr (encode_or_nil f)"
  by (simp add: encode_or_nil_def frame_encode_layout)

lemma request_encodable [simp]:
  "encodable (request_frame typ rid t chid payload) \<longleftrightarrow> length payload \<le> 0xFFFF"
  by (simp add: request_frame_def encodable_def)

lemma response_fields [simp]:
  "SeqID (amf_response f) = SeqID f" "Payload (amf_response f) = Payload f"
  "SendTSNS (amf_response f) = SendTSNS f" "MsgType (amf_response f) = MsgResp"
  by (simp_all add: amf_response_def)

lemma response_encodable [simp]: "encodable (amf_response f) = encodable f"
  by (simp add: amf_response_def encodable_def)

lemma decode_encodable: "encodable f \<Longrightarrow> frame_decode (encode_or_nil f) = Inr f"
  using wire.dec_enc_exact encode_or_nil_encodable by blast

lemma length_encode_or_nil: "encodable f \<Longrightarrow> length (encode_or_nil f) = 26 + length (Payload f)"
  using encode_or_nil_encodable [of f] by (auto simp: frame_encode_Inr_iff)

lemma settle_response:
  assumes "length payload \<le> 0xFFFF"
  shows "settle q now (Inr (encode_or_nil (amf_response (request_frame MsgReq q t chid payload)))) c =
    AddLatency (since_stamp now (of_int t)) (AddRx 1 c)"
  using assms decode_encodable [of "amf_response (request_frame MsgReq q t chid payload)"]
  by (simp add: settle_def response_verdict_def) (simp add: amf_response_def request_frame_def)

text \<open>A response to another request is a mismatch, and the round ends there.\<close>

lemma settle_late_response:
  assumes "encodable f" and "SeqID f \<noteq> q"
  shows "settle q now (Inr (encode_or_nil (amf_response f))) c = AddDropMismatch 1 c"
proof -
  have "frame_decode (encode_or_nil (amf_response f)) = Inr (amf_response f)"
    by (rule decode_encodable) (simp add: assms(1))
  then have "response_verdict q (Inr (encode_or_nil (amf_response f))) = Inl CDropMismatch"
    by (rule mismatch_of_other) (simp add: assms(2) amf_response_def)
  then show ?thesis
    by (simp add: settle_def)
qed

definition count_mismatch :: "collector \<Rightarrow> collector" where
  "count_mismatch c = AddDropMismatch 1 (AddTx 1 c)"

lemma count_mismatches:
  "tx ((count_mismatch ^^ n) c) = tx c + of_nat n" "rx ((count_mismatch ^^ n) c) = rx c"
  "dropMismatch ((count_mismatch ^^ n) c) = dropMismatch c + of_nat n"
  "dropTimeout ((count_mismatch ^^ n) c) = dropTimeout c" "dropSendErr ((count_mismatch ^^ n) c) = dropSendErr c"
  "dropDecode ((count_mismatch ^^ n) c) = dropDecode c" "dropOther ((count_mismatch ^^ n) c) = dropOther c"
  "latencyUS ((count_mismatch ^^ n) c) = latencyUS c"
  by (induction n) (simp_all add: count_mismatch_def collector_defs)

context message_channel
begin

text \<open>What is timely for \<open>n + k\<close> bytes in \<open>s\<close> is timely for \<open>k\<close> bytes in \<open>s'\<close>.\<close>

definition later :: "nat \<Rightarrow> 's \<Rightarrow> 's \<Rightarrow> bool" where
  "later n s s' \<longleftrightarrow> (\<forall>dl k. timely dl (n + k) s \<longrightarrow> timely dl k s')"

lemma later_trans: "later m s t \<Longrightarrow> later n t u \<Longrightarrow> later (m + n) s u"
  by (simp add: later_def add.assoc)

lemma later_timely: "later n s s' \<Longrightarrow> timely dl k s \<Longrightarrow> n + j \<le> k \<Longrightarrow> timely dl j s'"
  unfolding later_def using timely_less by blast

lemma send_message:
  assumes "up k s" and "encodable f" and "length (on_wire (encode_or_nil f)) \<le> k"
    and "timely dl (length (on_wire (encode_or_nil f))) s"
  shows "\<exists>s'. ch_Send ch dl (encode_or_nil f) s = Some (None, s') \<and> out s' = out s @ on_wire (encode_or_nil f)
    \<and> inn s' = inn s \<and> up (k - length (on_wire (encode_or_nil f))) s' \<and> later (length (on_wire (encode_or_nil f))) s s'"
  using send_up [OF assms(1) encode_or_nil_encodable [OF assms(2)] assms(3,4)] by (simp add: later_def)

lemma recv_message:
  assumes "up k s" and "encodable f" and "inn s = on_wire (encode_or_nil f) @ rest"
    and "length (on_wire (encode_or_nil f)) \<le> k" and "timely dl (length (on_wire (encode_or_nil f))) s"
  shows "\<exists>s'. ch_Recv ch dl s = Some (Inr (encode_or_nil f), s') \<and> out s' = out s \<and> inn s' = rest
    \<and> up (k - length (on_wire (encode_or_nil f))) s' \<and> later (length (on_wire (encode_or_nil f))) s s'"
  using recv_up [OF assms(1) encode_or_nil_encodable [OF assms(2)] assms(3,4,5)] by (simp add: later_def)

lemma session_serves:
  assumes "\<forall>f \<in> set fs. encodable f" and "inn s = wire_bytes on_wire fs @ rest" and "up k s"
    and "length (wire_bytes on_wire fs)
      + length (wire_bytes on_wire (map amf_response (filter (\<lambda>f. MsgType f = MsgReq) fs))) \<le> k"
    and "timely dl k s"
  shows "\<exists>s' k'. handleSession ch dl (length fs) s = Some s' \<and> inn s' = rest \<and> up k' s'
    \<and> out s' = out s @ wire_bytes on_wire (map amf_response (filter (\<lambda>f. MsgType f = MsgReq) fs))"
  using assms
proof (induction fs arbitrary: s k)
  case Nil
  then show ?case by auto
next
  case (Cons f fs)
  let ?b = "length (on_wire (encode_or_nil f))" and ?a = "length (on_wire (encode_or_nil (amf_response f)))"
  let ?answers = "\<lambda>fs. wire_bytes on_wire (map amf_response (filter (\<lambda>f. MsgType f = MsgReq) fs))"
  have enc: "encodable f" "encodable (amf_response f)" and fs: "\<forall>f \<in> set fs. encodable f"
    using Cons.prems(1) by simp_all
  have "?b \<le> k" "timely dl ?b s" "inn s = on_wire (encode_or_nil f) @ (wire_bytes on_wire fs @ rest)"
    using Cons.prems(2,4) timely_less [OF Cons.prems(5), of ?b] by simp_all
  from recv_message [OF Cons.prems(3) enc(1) this(3,1,2)]
  obtain s1 where recv: "ch_Recv ch dl s = Some (Inr (encode_or_nil f), s1)" and s1: "out s1 = out s"
    "inn s1 = wire_bytes on_wire fs @ rest" "up (k - ?b) s1" "later ?b s s1" by blast
  have dec: "frame_decode (encode_or_nil f) = Inr f"
    using enc by (simp add: decode_encodable)
  have t1: "timely dl (k - ?b) s1"
    using later_timely [OF s1(4) Cons.prems(5)] \<open>?b \<le> k\<close> by simp
  show ?case
  proof (cases "MsgType f = MsgReq")
    case True
    have le: "?a \<le> k - ?b"
      using Cons.prems(4) True by simp
    from send_message [OF s1(3) enc(2) le timely_less [OF t1 le]]
    obtain s2 where send: "ch_Send ch dl (encode_or_nil (amf_response f)) s1 = Some (None, s2)"
      and s2: "out s2 = out s1 @ on_wire (encode_or_nil (amf_response f))" "inn s2 = inn s1"
        "up (k - ?b - ?a) s2" "later ?a s1 s2" by blast
    have t2: "timely dl (k - ?b - ?a) s2"
      using later_timely [OF s2(4) t1] le by simp
    have "length (wire_bytes on_wire fs) + length (?answers fs) \<le> k - ?b - ?a"
      using Cons.prems(4) True by simp
    from Cons.IH [OF fs _ s2(3) this t2] s1 s2
    obtain s' k' where "handleSession ch dl (length fs) s2 = Some s'" "inn s' = rest" "up k' s'"
      "out s' = out s2 @ ?answers fs"
      by auto
    with recv dec send True s1 s2 show ?thesis
      by (auto simp: amf_handle_def)
  next
    case False
    have "length (wire_bytes on_wire fs) + length (?answers fs) \<le> k - ?b"
      using Cons.prems(4) False by simp
    from Cons.IH [OF fs s1(2,3) this t1] s1
    obtain s' k' where "handleSession ch dl (length fs) s1 = Some s'" "inn s' = rest" "up k' s'"
      "out s' = out s1 @ ?answers fs"
      by auto
    with recv dec False s1 show ?thesis
      by (auto simp: amf_handle_def)
  qed
qed

text \<open>
  One round in which \<open>Recv\<close> finds a response, to this request or to another one: \<open>f\<close> is the
  request sent, \<open>g\<close> the one answered.
\<close>

lemma round_receives:
  assumes "length payload \<le> 0xFFFF" and "encodable g"
    and "f = request_frame MsgReq (q + 1) (fst t) (ch_ID ch) payload"
    and "n = length (on_wire (encode_or_nil f)) + length (on_wire (encode_or_nil (amf_response g)))"
    and "inn s = on_wire (encode_or_nil (amf_response g)) @ rest" and "up k s" and "n \<le> k"
    and "timely dl n s" and "timely (round_deadline r dl t) n s"
  shows "\<exists>s'. latency_round r ch dl payload t (q, c, s) = Some (q + 1,
      settle (q + 1) (snd (snd t)) (Inr (encode_or_nil (amf_response g))) (AddTx 1 c), s')
    \<and> inn s' = rest \<and> out s' = out s @ on_wire (encode_or_nil f) \<and> up (k - n) s' \<and> later n s s'"
proof -
  let ?b = "length (on_wire (encode_or_nil f))" and ?a = "length (on_wire (encode_or_nil (amf_response g)))"
  have enc: "encodable f" "encodable (amf_response g)"
    using assms(1,2) by (simp_all add: assms(3))
  have "?b \<le> k" "?b \<le> n" using assms(4,7) by simp_all
  from send_message [OF assms(6) enc(1) this(1) timely_less [OF assms(8) this(2)]]
  obtain s1 where send: "ch_Send ch dl (encode_or_nil f) s = Some (None, s1)" and s1: "inn s1 = inn s"
    "out s1 = out s @ on_wire (encode_or_nil f)" "up (k - ?b) s1" "later ?b s s1" by blast
  have "inn s1 = on_wire (encode_or_nil (amf_response g)) @ rest" "?a \<le> k - ?b"
    "timely (round_deadline r dl t) ?a s1"
    using s1(1) assms(4,5,7) later_timely [OF s1(4) assms(9)] by simp_all
  from recv_message [OF s1(3) enc(2) this]
  obtain s2 where recv: "ch_Recv ch (round_deadline r dl t) s1 = Some (Inr (encode_or_nil (amf_response g)), s2)"
    and s2: "out s2 = out s1" "inn s2 = rest" "up (k - ?b - ?a) s2" "later ?a s1 s2" by blast
  have "latency_round r ch dl payload t (q, c, s) = Some (q + 1,
      settle (q + 1) (snd (snd t)) (Inr (encode_or_nil (amf_response g))) (AddTx 1 c), s2)"
    using send recv
    by (simp add: latency_round_def send_request_def assms(3) round_deadline_def Let_def split_beta)
  moreover have "later n s s2"
    unfolding assms(4) by (rule later_trans [OF s1(4) s2(4)])
  ultimately show ?thesis
    using s1 s2 by (auto simp: assms(4))
qed

lemma rounds_answered:
  assumes "length payload \<le> 0xFFFF"
    and "fs = request_frames (ch_ID ch) payload q ts"
    and "inn s = wire_bytes on_wire (map amf_response fs) @ rest"
    and "up k s" and "exchange_bytes on_wire fs \<le> k" and "timely dl k s"
    and "\<forall>i < length ts. timely (round_deadline r dl (ts ! i)) (exchange_bytes on_wire (take (Suc i) fs)) s"
  shows "\<exists>s'. latency_rounds r ch dl payload ts (q, c, s) = Some (q + of_nat (length ts), answered ts c, s')
    \<and> inn s' = rest \<and> out s' = out s @ wire_bytes on_wire fs"
  using assms(2-)
proof (induction ts arbitrary: q c s k fs)
  case Nil
  then show ?case by simp
next
  case (Cons t ts)
  let ?f = "request_frame MsgReq (q + 1) (fst t) (ch_ID ch) payload"
  let ?fs = "request_frames (ch_ID ch) payload (q + 1) ts"
  let ?n = "length (on_wire (encode_or_nil ?f)) + length (on_wire (encode_or_nil (amf_response ?f)))"
  let ?c = "AddLatency (since_stamp (snd (snd t)) (of_int (fst t))) (AddRx 1 (AddTx 1 c))"
  have fs: "fs = ?f # ?fs" using Cons.prems(1) by simp
  have enc: "encodable ?f" using assms(1) by simp
  have n: "?n \<le> k" "exchange_bytes on_wire ?fs \<le> k - ?n"
    using Cons.prems(4) by (simp_all add: fs)
  have t0: "timely (round_deadline r dl t) ?n s"
    using Cons.prems(6) by (auto simp: fs)
  have inn: "inn s = on_wire (encode_or_nil (amf_response ?f)) @ (wire_bytes on_wire (map amf_response ?fs) @ rest)"
    using Cons.prems(2) by (simp add: fs)
  have settled: "settle (q + 1) (snd (snd t)) (Inr (encode_or_nil (amf_response ?f))) (AddTx 1 c) = ?c"
    by (rule settle_response [OF assms(1)])
  from round_receives [OF assms(1) enc refl refl inn Cons.prems(3) n(1) timely_less [OF Cons.prems(5) n(1)] t0,
      where c = c, unfolded settled]
  obtain s1 where round: "latency_round r ch dl payload t (q, c, s) = Some (q + 1, ?c, s1)"
    and s1: "inn s1 = wire_bytes on_wire (map amf_response ?fs) @ rest"
      "out s1 = out s @ on_wire (encode_or_nil ?f)" "up (k - ?n) s1" "later ?n s s1"
    by blast
  have t1: "timely dl (k - ?n) s1"
    using later_timely [OF s1(4) Cons.prems(5)] n(1) by simp
  have "timely (round_deadline r dl (ts ! i)) (exchange_bytes on_wire (take (Suc i) ?fs)) s1" if "i < length ts" for i
    using Cons.prems(6) that
    by (intro later_timely [OF s1(4), of _ "exchange_bytes on_wire (take (Suc (Suc i)) fs)"])
      (auto simp: fs dest: spec [of _ "Suc i"])
  with Cons.IH [OF refl s1(1,3) n(2) t1, of ?c] obtain s' where
    "latency_rounds r ch dl payload ts (q + 1, ?c, s1) = Some (q + 1 + of_nat (length ts), answered ts ?c, s')"
    "inn s' = rest" "out s' = out s1 @ wire_bytes on_wire ?fs"
    by blast
  with round s1(2) show ?case
    by (simp add: fs algebra_simps)
qed

text \<open>
  A worker that is one response behind: \<open>Recv\<close> finds the response to the request before, and
  its own stays for the next round.
\<close>

lemma rounds_behind:
  assumes "length payload \<le> 0xFFFF"
    and "fs = request_frames (ch_ID ch) payload q ts" and "encodable g" and "SeqID g = q"
    and "inn s = wire_bytes on_wire (map amf_response (g # fs))"
    and "up k s" and "length (wire_bytes on_wire fs) + length (inn s) \<le> k" and "timely dl k s"
    and "\<forall>i < length ts. timely (round_deadline r dl (ts ! i)) (length (wire_bytes on_wire (take (Suc i) fs))
      + length (wire_bytes on_wire (map amf_response (take (Suc i) (g # fs))))) s"
  shows "\<exists>s'. latency_rounds r ch dl payload ts (q, c, s) =
      Some (q + of_nat (length ts), (count_mismatch ^^ length ts) c, s')
    \<and> inn s' = wire_bytes on_wire [amf_response (last (g # fs))]
    \<and> out s' = out s @ wire_bytes on_wire fs"
  using assms(2-)
proof (induction ts arbitrary: q c s k fs g)
  case Nil
  then show ?case by simp
next
  case (Cons t ts)
  let ?f = "request_frame MsgReq (q + 1) (fst t) (ch_ID ch) payload"
  let ?fs = "request_frames (ch_ID ch) payload (q + 1) ts"
  let ?n = "length (on_wire (encode_or_nil ?f)) + length (on_wire (encode_or_nil (amf_response g)))"
  have fs: "fs = ?f # ?fs" using Cons.prems(1) by simp
  have enc: "encodable ?f" and seq: "SeqID ?f = q + 1"
    using assms(1) by (simp, simp add: request_frame_def)
  have inn: "inn s = on_wire (encode_or_nil (amf_response g)) @ wire_bytes on_wire (map amf_response (?f # ?fs))"
    using Cons.prems(4) by (simp add: fs)
  have n: "?n \<le> k"
    using Cons.prems(6) by (simp add: inn fs)
  have t0: "timely (round_deadline r dl t) ?n s"
    using Cons.prems(8) by (auto simp: fs)
  have settled: "settle (q + 1) (snd (snd t)) (Inr (encode_or_nil (amf_response g))) (AddTx 1 c) = count_mismatch c"
    using settle_late_response [OF Cons.prems(2), of "q + 1"] Cons.prems(3) by (simp add: count_mismatch_def)
  from round_receives [OF assms(1) Cons.prems(2) refl refl inn Cons.prems(5) n timely_less [OF Cons.prems(7) n] t0,
      where c = c, unfolded settled]
  obtain s1 where round: "latency_round r ch dl payload t (q, c, s) = Some (q + 1, count_mismatch c, s1)"
    and s1: "inn s1 = wire_bytes on_wire (map amf_response (?f # ?fs))"
      "out s1 = out s @ on_wire (encode_or_nil ?f)" "up (k - ?n) s1" "later ?n s s1"
    by blast
  have t1: "timely dl (k - ?n) s1"
    using later_timely [OF s1(4) Cons.prems(7)] n by simp
  have len: "length (wire_bytes on_wire ?fs) + length (inn s1) \<le> k - ?n"
    using Cons.prems(6) by (simp add: inn fs s1(1))
  have "timely (round_deadline r dl (ts ! i)) (length (wire_bytes on_wire (take (Suc i) ?fs))
      + length (wire_bytes on_wire (map amf_response (take (Suc i) (?f # ?fs))))) s1" if "i < length ts" for i
    using Cons.prems(8) that
    by (intro later_timely [OF s1(4), of _ "length (wire_bytes on_wire (take (Suc (Suc i)) fs))
        + length (wire_bytes on_wire (map amf_response (take (Suc (Suc i)) (g # fs))))"])
      (auto simp: fs dest: spec [of _ "Suc i"])
  with Cons.IH [OF refl enc seq s1(1,3) len t1, of "count_mismatch c"] obtain s' where
    "latency_rounds r ch dl payload ts (q + 1, count_mismatch c, s1) =
      Some (q + 1 + of_nat (length ts), (count_mismatch ^^ length ts) (count_mismatch c), s')"
    "inn s' = wire_bytes on_wire [amf_response (last (?f # ?fs))]" "out s' = out s1 @ wire_bytes on_wire ?fs"
    by blast
  with round s1(2) show ?case
    by (simp add: fs funpow_swap1 algebra_simps)
qed

end

lemma request_frames_requests: "f \<in> set (request_frames chid payload q ts) \<Longrightarrow> MsgType f = MsgReq"
  by (induction ts arbitrary: q) (auto simp: request_frame_def)

lemma request_frames_encodable:
  "length payload \<le> 0xFFFF \<Longrightarrow> f \<in> set (request_frames chid payload q ts) \<Longrightarrow> encodable f"
  by (induction ts arbitrary: q) auto

lemma length_request_frames [simp]: "length (request_frames chid payload q ts) = length ts"
  by (induction ts arbitrary: q) simp_all

lemma answered_counts:
  "rx (answered ts c) = rx c + of_nat (length ts)" "tx (answered ts c) = tx c + of_nat (length ts)"
  "dropTimeout (answered ts c) = dropTimeout c" "dropSendErr (answered ts c) = dropSendErr c"
  "dropDecode (answered ts c) = dropDecode c" "dropMismatch (answered ts c) = dropMismatch c"
  "dropOther (answered ts c) = dropOther c"
  by (induction ts arbitrary: c) (simp_all add: collector_defs add.assoc)

lemma sint_of_int64: "in_int64 t \<Longrightarrow> sint (of_int t :: u64) = t"
  unfolding sint_sbintrunc'
  by (rule signed_take_bit_int_eq_self) (simp_all add: in_int64_def min_int64_def max_int64_def)

lemma answered_latency:
  "\<forall>t \<in> set ts. in_int64 (fst t) \<and> in_int64 (snd (snd t) - fst t) \<Longrightarrow>
    latencyUS (answered ts c) = latencyUS c @ map (\<lambda>t. microseconds (snd (snd t) - fst t)) ts"
  by (induction ts arbitrary: c)
    (simp_all add: since_stamp_def sint_of_int64 time_sub_exact collector_defs)

section \<open>Properties\<close>

text \<open>C2: Client and server agree over the kernel transport. For any number of rounds, the worker sends
  exactly the bytes that the server's session reads and the session sends exactly the bytes that
  the worker reads; every request is answered and accepted, nothing is dropped, and the recorded
  times are the differences between sending and receiving, in microseconds, however the kernel
  fragments either stream.\<close>

theorem kernel_end_to_end:
  fixes payload :: bytes and ts :: "(int \<times> int \<times> int) list"
  assumes "length payload \<le> 0xFFFF"
    and "inbox wa = wire_bytes (\<lambda>b. b) (request_frames n payload 0 ts)"
    and "inbox wg = wire_bytes (\<lambda>b. b) (map amf_response (request_frames n payload 0 ts))"
    and "fd_up k (cg, wg)" and "fd_up k (ca, wa)" and "length (inbox wa) + length (inbox wg) \<le> k"
    and "\<forall>t \<in> set ts. in_int64 (fst t) \<and> in_int64 (snd (snd t) - fst t)"
  shows "\<exists>c g' a'.
    latency_rounds r (kernel_channel fd_net_conn n) dl payload ts (0, new_collector, (cg, wg))
      = Some (of_nat (length ts), c, g')
    \<and> handleSession (kernel_channel fd_net_conn m) dla (length ts) (ca, wa) = Some a'
    \<and> outbox (snd g') = outbox wg @ inbox wa \<and> outbox (snd a') = outbox wa @ inbox wg
    \<and> tx c = of_nat (length ts) \<and> rx c = of_nat (length ts) \<and> dropTimeout c = 0 \<and> dropSendErr c = 0
    \<and> dropDecode c = 0 \<and> dropMismatch c = 0 \<and> dropOther c = 0
    \<and> latencyUS c = map (\<lambda>t. microseconds (snd (snd t) - fst t)) ts"
proof -
  let ?fs = "request_frames n payload 0 ts"
  have reqs: "filter (\<lambda>f. MsgType f = MsgReq) ?fs = ?fs"
    by (simp add: filter_id_conv request_frames_requests)
  obtain g' where client: "latency_rounds r (kernel_channel fd_net_conn n) dl payload ts (0, new_collector, (cg, wg))
      = Some (0 + of_nat (length ts), answered ts new_collector, g')"
    and out: "fd_sent g' = fd_sent (cg, wg) @ wire_bytes (\<lambda>b. b) ?fs"
    using kernel.rounds_answered [where n = n and dl = dl and r = r and c = new_collector, of payload ?fs 0 ts "(cg, wg)" "[]" k] assms
    by (auto simp: fd_pend_def exchange_bytes_def)
  obtain a' where server: "handleSession (kernel_channel fd_net_conn m) dla (length ts) (ca, wa) = Some a'"
    and outa: "fd_sent a' = fd_sent (ca, wa) @ wire_bytes (\<lambda>b. b) (map amf_response ?fs)"
    using kernel.session_serves [of ?fs "(ca, wa)" "[]" k m dla] assms(2-6) reqs
      request_frames_encodable [OF assms(1)]
    by (auto simp: fd_pend_def)
  show ?thesis
    using client server out outa assms(2,3) answered_counts [of ts new_collector]
      answered_latency [OF assms(7), of new_collector]
    by (auto simp: fd_sent_def new_collector_def)
qed

theorem kernel_end_to_end_witness:
  "\<exists>wg c g'. latency_rounds (RunPart Default) (kernel_channel fd_net_conn 0) None [7] [(1000, 2000, 3001000)]
      (0, new_collector, (newFDConn 3, wg)) = Some (1, c, g') \<and> rx c = 1 \<and> latencyUS c = [3000]"
proof -
  let ?ts = "[(1000, 2000, 3001000)] :: (int \<times> int \<times> int) list"
  let ?fs = "request_frames 0 [7] 0 ?ts"
  let ?req = "wire_bytes (\<lambda>b. b) ?fs" and ?resp = "wire_bytes (\<lambda>b. b) (map amf_response ?fs)"
  let ?w = "\<lambda>i. \<lparr>script = smooth (POLLIN OR POLLOUT) 5 (length ?req + length ?resp), inbox = i, outbox = [], trace = []\<rparr>"
  have up: "fd_up (length ?req + length ?resp) (newFDConn 3, ?w i)" for i
    by (rule smooth_up) simp
  have range: "\<forall>t \<in> set ?ts. in_int64 (fst t) \<and> in_int64 (snd (snd t) - fst t)"
    by (simp add: in_int64_def min_int64_def max_int64_def)
  have len: "length [7 :: byte] \<le> 0xFFFF" by simp
  have "inbox (?w ?req) = ?req" and "inbox (?w ?resp) = ?resp"
    and "length (inbox (?w ?req)) + length (inbox (?w ?resp)) \<le> length ?req + length ?resp"
    by (simp_all only: world.simps)
  from kernel_end_to_end [OF len this(1,2) up up this(3) range, of "RunPart Default" None 0 None]
  show ?thesis
    by (auto simp: microseconds_def go_div_def)
qed

text \<open>C11: A session of the server answers every request exactly once and in order, with the number, the
  time stamp, the channel and the payload of the request, and answers nothing else: flood packets
  and frames of any other type are read and skipped.\<close>

theorem session_answers_requests:
  assumes "\<forall>f \<in> set fs. encodable f" and "inbox w = wire_bytes (\<lambda>b. b) fs @ rest" and "fd_up k (c, w)"
    and "length (wire_bytes (\<lambda>b. b) fs)
      + length (wire_bytes (\<lambda>b. b) (map amf_response (filter (\<lambda>f. MsgType f = MsgReq) fs))) \<le> k"
  shows "\<exists>s'. handleSession (kernel_channel fd_net_conn n) dl (length fs) (c, w) = Some s'
    \<and> inbox (snd s') = rest
    \<and> outbox (snd s') = outbox w
        @ wire_bytes (\<lambda>b. b) (map amf_response (filter (\<lambda>f. MsgType f = MsgReq) fs))"
  using kernel.session_serves [of fs "(c, w)" rest k n dl] assms by (auto simp: fd_pend_def fd_sent_def)

theorem session_answers_requests_witness:
  "\<exists>w s'. handleSession (kernel_channel fd_net_conn 0) None 2 (newFDConn 3, w) = Some s'
    \<and> outbox (snd s') = wire_bytes (\<lambda>b. b) [amf_response (request_frame MsgReq 1 5 0 [7])]"
proof -
  let ?fs = "[request_frame MsgFlood 9 4 0 [1, 2], request_frame MsgReq 1 5 0 [7]]"
  let ?in = "wire_bytes (\<lambda>b. b) ?fs"
  let ?out = "wire_bytes (\<lambda>b. b) (map amf_response (filter (\<lambda>f. MsgType f = MsgReq) ?fs))"
  let ?w = "\<lparr>script = smooth (POLLIN OR POLLOUT) 5 (length ?in + length ?out), inbox = ?in @ [], outbox = [], trace = []\<rparr>"
  have up: "fd_up (length ?in + length ?out) (newFDConn 3, ?w)"
    by (rule smooth_up) simp
  have enc: "\<forall>f \<in> set ?fs. encodable f" by simp
  have "inbox ?w = ?in @ []" by (simp only: world.simps)
  from session_answers_requests [OF enc this up order.refl, of 0 None]
  have "\<exists>s'. handleSession (kernel_channel fd_net_conn 0) None (length ?fs) (newFDConn 3, ?w) = Some s'
      \<and> outbox (snd s') = outbox ?w @ ?out"
    by blast
  moreover have "length ?fs = 2" by simp
  moreover have "filter (\<lambda>f. MsgType f = MsgReq) ?fs = [request_frame MsgReq 1 5 0 [7]]"
    by (simp add: request_frame_def MsgReq_def MsgFlood_def)
  ultimately show ?thesis
    by (simp only: list.map world.simps append.simps) blast
qed

text \<open>The sessions that were accepted in some rounds.\<close>

definition accepted_sessions :: "'sess accept_round list \<Rightarrow> 'sess list" where
  "accepted_sessions rs = List.map_filter (\<lambda>a. case ar_result a of Inl _ \<Rightarrow> None | Inr s \<Rightarrow> Some s) rs"

text \<open>C13: Failures to accept never end the server while its context is alive. When the accept loop
  returns, the last round saw the context done, at its start (and its error is returned) or after
  a failed \<open>Accept\<close>; all rounds before it went on, and every session accepted in them, in order,
  was handed to a goroutine.\<close>

theorem accept_loop_robust:
  assumes "amf_accept_loop rs [] = Some (err, started)"
  shows "\<exists>k < length rs. started = accepted_sessions (take k rs)
    \<and> (\<forall>a \<in> set (take k rs). ar_done a = None \<and> (isl (ar_result a) \<longrightarrow> ar_ctx_after a = None))
    \<and> (if err \<noteq> None then ar_done (rs ! k) = err
        else ar_done (rs ! k) = None \<and> isl (ar_result (rs ! k)) \<and> ar_ctx_after (rs ! k) \<noteq> None)"
proof -
  have "\<exists>k < length rs. started = started0 @ accepted_sessions (take k rs)
      \<and> (\<forall>a \<in> set (take k rs). ar_done a = None \<and> (isl (ar_result a) \<longrightarrow> ar_ctx_after a = None))
      \<and> (if err \<noteq> None then ar_done (rs ! k) = err
          else ar_done (rs ! k) = None \<and> isl (ar_result (rs ! k)) \<and> ar_ctx_after (rs ! k) \<noteq> None)"
    if "amf_accept_loop rs started0 = Some (err, started)" for started0
    using that
  proof (induction rs arbitrary: started0)
    case (Cons a rs)
    show ?case
    proof (cases "ar_done a = None \<and> (isl (ar_result a) \<longrightarrow> ar_ctx_after a = None)")
      case False
      with Cons.prems show ?thesis
        by (intro exI [of _ 0])
          (auto simp: accepted_sessions_def List.map_filter_simps split: option.splits sum.splits)
    next
      case True
      let ?s = "started0 @ accepted_sessions [a]"
      from True Cons.prems have "amf_accept_loop rs ?s = Some (err, started)"
        by (auto simp: accepted_sessions_def List.map_filter_simps split: sum.splits)
      from Cons.IH [OF this] obtain k where k: "k < length rs"
        "started = ?s @ accepted_sessions (take k rs)"
        "\<forall>a \<in> set (take k rs). ar_done a = None \<and> (isl (ar_result a) \<longrightarrow> ar_ctx_after a = None)"
        "if err \<noteq> None then ar_done (rs ! k) = err
          else ar_done (rs ! k) = None \<and> isl (ar_result (rs ! k)) \<and> ar_ctx_after (rs ! k) \<noteq> None"
        by blast
      have "accepted_sessions (take (Suc k) (a # rs)) = accepted_sessions [a] @ accepted_sessions (take k rs)"
        by (simp add: accepted_sessions_def List.map_filter_def)
      with k True show ?thesis
        by (intro exI [of _ "Suc k"]) simp
    qed
  qed simp
  from this [OF assms] show ?thesis by simp
qed

theorem accept_loop_robust_witness:
  "amf_accept_loop
      [\<lparr>ar_done = None, ar_result = Inl (Errorf ''handshake failed'' [] []), ar_ctx_after = None\<rparr>,
       \<lparr>ar_done = None, ar_result = Inr (5 :: nat), ar_ctx_after = None\<rparr>,
       \<lparr>ar_done = Some Canceled, ar_result = Inr 6, ar_ctx_after = Some Canceled\<rparr>] []
    = Some (Some Canceled, [5])
    \<and> (\<exists>k < 3. [5] = accepted_sessions (take k
      [\<lparr>ar_done = None, ar_result = Inl (Errorf ''handshake failed'' [] []), ar_ctx_after = None\<rparr>,
       \<lparr>ar_done = None, ar_result = Inr (5 :: nat), ar_ctx_after = None\<rparr>,
       \<lparr>ar_done = Some Canceled, ar_result = Inr 6, ar_ctx_after = Some Canceled\<rparr>]))"
proof -
  let ?rs = "[\<lparr>ar_done = None, ar_result = Inl (Errorf ''handshake failed'' [] []), ar_ctx_after = None\<rparr>,
       \<lparr>ar_done = None, ar_result = Inr (5 :: nat), ar_ctx_after = None\<rparr>,
       \<lparr>ar_done = Some Canceled, ar_result = Inr 6, ar_ctx_after = Some Canceled\<rparr>]"
  have run: "amf_accept_loop ?rs [] = Some (Some Canceled, [5])" by simp
  from accept_loop_robust [OF run] have "\<exists>k < length ?rs. [5] = accepted_sessions (take k ?rs)"
    by blast
  moreover have "length ?rs = 3" by simp
  ultimately show ?thesis using run by (simp only: simp_thms)
qed

text \<open>C19: A payload that is too large for a frame is counted as sent although nothing is: the error of
  \<open>Encode\<close> is dropped, the empty buffer goes through \<open>Send\<close> without a system call, and the
  request counts as transmitted. This happens for every round of a run with such a template.\<close>

theorem oversize_payload_counted:
  assumes "0xFFFF < length payload"
  shows "send_request (kernel_channel fd_net_conn n) dl typ q t payload c (fc, w) =
    Some (True, AddTx 1 c, (SetWriteDeadline (ctx_deadline dl) fc, w))"
proof -
  have "encode_or_nil (request_frame typ q t n payload) = []"
    using assms by (simp add: encode_or_nil_def request_frame_def frame_encode_def)
  then show ?thesis
    by (simp add: send_request_def kernel_send_def kernel_send_loop.simps [of fd_Write])
qed

theorem oversize_payload_counted_witness:
  "\<exists>fc. send_request (kernel_channel fd_net_conn 0) None MsgFlood 1 0 (replicate 65536 0) new_collector
      (newFDConn 3, \<lparr>script = [], inbox = [], outbox = [], trace = []\<rparr>)
    = Some (True, AddTx 1 new_collector, (fc, \<lparr>script = [], inbox = [], outbox = [], trace = []\<rparr>))"
  using oversize_payload_counted [of "replicate 65536 0" 0 None MsgFlood 1 0 new_collector "newFDConn 3"]
  by simp

text \<open>C16: One response that arrives after its timeout spoils the rest of the run. A worker sends a
  request over the kernel transport and its \<open>Recv\<close> times out without reading anything; then the
  responses to this and to all later requests arrive, in order. Every later round reads the
  response to the request before its own and counts a mismatch, and leaves its own response for
  the next round, which never catches up: no response is ever accepted again, and the last one
  is still unread at the end.\<close>

theorem late_response_cascade:
  assumes "length payload \<le> 0xFFFF"
    and "kernel_send fd_net_conn dl (encode_or_nil (request_frame MsgReq (q + 1) t1 n payload)) (c0, w0)
      = Some (None, (c1, w1))"
    and "kernel_recv fd_net_conn (with_timeout dl t2 (recvTimeout r)) (c1, w1)
      = Some (Inl DeadlineExceeded, (c2, w2))"
    and "inbox w2 = wire_bytes (\<lambda>b. b) (map amf_response (request_frames n payload q ((t1, t2, t3) # ts)))"
    and "fd_up k (c2, w2)" and "2 * length (inbox w2) \<le> k"
  shows "\<exists>c' s'. latency_rounds r (kernel_channel fd_net_conn n) dl payload ((t1, t2, t3) # ts) (q, c, (c0, w0))
      = Some (q + 1 + of_nat (length ts), c', s')
    \<and> tx c' = tx c + 1 + of_nat (length ts) \<and> rx c' = rx c
    \<and> dropTimeout c' = dropTimeout c + 1 \<and> dropMismatch c' = dropMismatch c + of_nat (length ts)
    \<and> dropSendErr c' = dropSendErr c \<and> dropDecode c' = dropDecode c \<and> dropOther c' = dropOther c
    \<and> latencyUS c' = latencyUS c
    \<and> inbox (snd s') = wire_bytes (\<lambda>b. b)
        [amf_response (last (request_frames n payload q ((t1, t2, t3) # ts)))]"
proof -
  let ?g = "request_frame MsgReq (q + 1) t1 n payload" and ?fs = "request_frames n payload (q + 1) ts"
  let ?c = "AddDropTimeout 1 (AddTx 1 c)"
  have first: "latency_round r (kernel_channel fd_net_conn n) dl payload (t1, t2, t3) (q, c, (c0, w0))
      = Some (q + 1, ?c, (c2, w2))"
    using assms(2,3)
    by (simp add: latency_round_def send_request_def settle_def response_verdict_def isTimeoutError_def)
  have enc: "encodable ?g" and seq: "SeqID ?g = q + 1"
    using assms(1) by (simp, simp add: request_frame_def)
  have inn: "fd_pend (c2, w2) = wire_bytes (\<lambda>b. b) (map amf_response (?g # ?fs))"
    using assms(4) by (simp add: fd_pend_def)
  have "length (wire_bytes (\<lambda>b. b) fs) = length (wire_bytes (\<lambda>b. b) (map amf_response fs))"
    if "\<forall>f \<in> set fs. encodable f" for fs
    using that by (induction fs) (simp_all add: length_encode_or_nil)
  from this [of ?fs] request_frames_encodable [OF assms(1)]
  have "length (wire_bytes (\<lambda>b. b) ?fs) + length (fd_pend (c2, w2)) \<le> k"
    using assms(4,6) by (auto simp: fd_pend_def)
  from kernel.rounds_behind [where n = n and ts = ts and r = r and dl = dl and c = ?c, OF assms(1) _ enc seq inn assms(5) this]
  obtain s' where "latency_rounds r (kernel_channel fd_net_conn n) dl payload ts (q + 1, ?c, (c2, w2))
      = Some (q + 1 + of_nat (length ts), (count_mismatch ^^ length ts) ?c, s')"
    "inbox (snd s') = wire_bytes (\<lambda>b. b) [amf_response (last (?g # ?fs))]"
    by (auto simp: fd_pend_def)
  with first show ?thesis
    by (intro exI [of _ "(count_mismatch ^^ length ts) ?c"] exI [of _ s'])
      (simp add: count_mismatches collector_defs)
qed

lemma one_write_send:
  assumes "fd_write (SetWriteDeadline (ctx_deadline dl) c) b w = Some ((n, None), w')" and "length b = n" and "0 < n"
  shows "kernel_send fd_net_conn dl b (c, w) = Some (None, (SetWriteDeadline (ctx_deadline dl) c, w'))"
  using assms by (simp add: kernel_send_def fd_Write_def kernel_send_loop.simps [of fd_Write b]
      kernel_send_loop.simps [of fd_Write "[]"])

theorem late_response_cascade_witness:
  "\<exists>w0 c' s'. latency_rounds (RunPart Default) (kernel_channel fd_net_conn 0) None [] [(0, 0, 0), (5, 6, 7)]
      (0, new_collector, (newFDConn 3, w0)) = Some (2, c', s')
    \<and> tx c' = 2 \<and> rx c' = 0 \<and> dropTimeout c' = 1 \<and> dropMismatch c' = 1"
proof -
  let ?b = "encode_or_nil (request_frame MsgReq (0 + 1) 0 0 [])"
  let ?in = "wire_bytes (\<lambda>b. b) (map amf_response (request_frames 0 [] 0 ((0, 0, 0) # [(5, 6, 7)])))"
  let ?p = "\<lambda>v re. \<lparr>a_now = 0, a_ctx = None, a_err = None, a_val = v, a_re = re\<rparr>"
  let ?rest = "smooth (POLLIN OR POLLOUT) 5 (2 * length ?in)"
  let ?w0 = "\<lparr>script = ?p 1 POLLOUT # ?p 26 0 # ?p 0 0 # ?rest, inbox = ?in, outbox = [], trace = []\<rparr>"
  let ?c1 = "SetWriteDeadline (ctx_deadline None) (newFDConn 3)"
  let ?c2 = "SetReadDeadline (ctx_deadline (with_timeout None 0 (recvTimeout (RunPart Default)))) ?c1"
  let ?w1 = "\<lparr>script = ?p 0 0 # ?rest, inbox = ?in, outbox = [] @ take 26 ?b,
      trace = [SysPoll 3 POLLOUT (- 1), SysWrite 3 ?b]\<rparr>"
  let ?w2 = "wait_called ?c2 POLLIN True ?w1"
  have len: "length (encode_or_nil (request_frame MsgReq i 0 0 [])) = 26" for i
    by (simp add: length_encode_or_nil request_frame_def encodable_def)
  have nf: "\<not> poll_failed POLLOUT" "POLLOUT \<noteq> 0"
    by (simp_all add: poll_failed_def POLLOUT_def POLLERR_def POLLHUP_def POLLNVAL_def)
  have "fd_write ?c1 ?b ?w0 = Some ((26, None), ?w1)"
    by (subst fd_write.simps, subst fd_wait.simps)
      (simp add: poll_verdict_def nf wait_called_def write_verdict_def len newFDConn_def called_def
        SetWriteDeadline_def deadlineTimeout_def ctx_deadline_def del: list.map request_frames.simps)
  from one_write_send [OF this] len have send: "kernel_send fd_net_conn None ?b (newFDConn 3, ?w0) = Some (None, (?c1, ?w1))"
    by simp
  have "fd_wait ?c2 POLLIN True ?w1 = Some (Inl IoTimeout, ?w2)"
    by (subst fd_wait.simps) (simp add: poll_verdict_def)
  then have "fd_read ?c2 26 ?w1 = Some (([], Some IoTimeout), ?w2)"
    by (subst fd_read.simps) simp
  then have recv: "kernel_recv fd_net_conn (with_timeout None 0 (recvTimeout (RunPart Default))) (?c1, ?w1)
      = Some (Inl DeadlineExceeded, (?c2, ?w2))"
    by (simp add: kernel_recv_def read_full_def read_loop.simps [of fd_Read] fd_Read_def
        chan_error_def asserts_timeout_def del: list.map request_frames.simps)
  have w2: "?w2 = \<lparr>script = ?rest, inbox = ?in, outbox = [] @ take 26 ?b, trace = trace ?w2\<rparr>"
    by (simp add: wait_called_def called_def del: list.map request_frames.simps)
  have up: "fd_up (2 * length ?in) (?c2, ?w2)"
    by (subst w2) (rule smooth_up, simp)
  have small: "length ([] :: bytes) \<le> 0xFFFF" and inn: "inbox ?w2 = ?in" "2 * length (inbox ?w2) \<le> 2 * length ?in"
    by (simp_all only: wait_called_simps world.simps) simp
  from late_response_cascade [where c = new_collector, OF small send recv inn(1) up inn(2)]
  show ?thesis
    by (auto simp: new_collector_def)
qed

end
