(* ===== verification/Net_Addr.thy ===== *)
theory Net_Addr
  imports Go_Strings
begin

text \<open>
  IP addresses as the transports use them: \<open>net.ParseIP\<close> and \<open>IP.To4\<close> of Go's standard
  library, and the text of an IPv4 address, with the fact that parsing inverts printing.
  An address is a list of 16 bytes; an IPv4 address is stored as an IPv4-mapped one.
\<close>

section \<open>Parsing\<close>

definition decimal_digit :: "char \<Rightarrow> nat option" where
  "decimal_digit c = (let n = of_char c in if 48 \<le> n \<and> n \<le> 57 then Some (n - 48) else None)"

text \<open>
  \<open>parseIPv4Fields\<close> of \<open>net/netip\<close>: the text that is left, the value and the number of
  digits of the current field, and the fields that are complete.
\<close>

fun ipv4_fields :: "string \<Rightarrow> nat \<Rightarrow> nat \<Rightarrow> bytes \<Rightarrow> bytes option" where
  "ipv4_fields [] val digLen fields =
     (if length fields < 3 then None else Some (fields @ [of_nat val]))"
| "ipv4_fields (c # s) val digLen fields =
     (case decimal_digit c of
        Some d \<Rightarrow>
          if digLen = 1 \<and> val = 0 then None
          else if 255 < val * 10 + d then None
          else ipv4_fields s (val * 10 + d) (digLen + 1) fields
      | None \<Rightarrow>
          if c = CHR ''.''
          then if digLen = 0 \<or> s = [] then None
            else if length fields = 3 then None
            else ipv4_fields s 0 0 (fields @ [of_nat val])
          else None)"

text \<open>The digits of one group of an IPv6 address: its value, their number and what follows.\<close>

fun hex_group :: "string \<Rightarrow> nat \<Rightarrow> nat \<Rightarrow> (nat \<times> nat \<times> string) option" where
  "hex_group [] off acc = Some (acc, off, [])"
| "hex_group (c # s) off acc =
     (case unhex c of
        Some d \<Rightarrow> if 3 < off then None else hex_group s (off + 1) (acc * 16 + d)
      | None \<Rightarrow> Some (acc, off, c # s))"

text \<open>
  The loop of \<open>parseIPv6\<close> for at most \<open>n\<close> more groups: the rest of the text, the bytes so far
  and the position of the ellipsis.
\<close>

fun ipv6_groups :: "nat \<Rightarrow> string \<Rightarrow> bytes \<Rightarrow> nat option \<Rightarrow> (string \<times> bytes \<times> nat option) option" where
  "ipv6_groups 0 s ip ellipsis = Some (s, ip, ellipsis)"
| "ipv6_groups (Suc n) s ip ellipsis =
     (case hex_group s 0 0 of
        None \<Rightarrow> None
      | Some (acc, off, r) \<Rightarrow>
          if off = 0 then None
          else if r \<noteq> [] \<and> hd r = CHR ''.''
          then if ellipsis = None \<and> length ip \<noteq> 12 then None
            else if 16 < length ip + 4 then None
            else map_option (\<lambda>q. ([], ip @ q, ellipsis)) (ipv4_fields s 0 0 [])
          else
            let ip = ip @ [of_nat (acc div 256), of_nat (acc mod 256)]
            in case r of
                 [] \<Rightarrow> Some ([], ip, ellipsis)
               | c # t \<Rightarrow>
                   if c \<noteq> CHR '':'' then None
                   else (case t of
                       [] \<Rightarrow> None
                     | d # u \<Rightarrow>
                         if d = CHR '':''
                         then if ellipsis \<noteq> None then None
                           else if u = [] then Some ([], ip, Some (length ip))
                           else ipv6_groups n u ip (Some (length ip))
                         else ipv6_groups n t ip ellipsis))"

text \<open>\<open>parseIPv6\<close>; \<open>ParseIP\<close> refuses addresses with a zone, so a percent sign is an error.\<close>

definition parse_ipv6 :: "string \<Rightarrow> bytes option" where
  "parse_ipv6 s =
     (if CHR ''%'' \<in> set s then None
      else
        let leading = starts_with s [CHR '':'', CHR '':''];
            r = (if leading then drop 2 s else s)
        in if leading \<and> r = [] then Some (replicate 16 0)
           else case ipv6_groups 8 r [] (if leading then Some 0 else None) of
               None \<Rightarrow> None
             | Some (rest, ip, ellipsis) \<Rightarrow>
                 if rest \<noteq> [] then None
                 else if length ip < 16 then
                   (case ellipsis of
                      None \<Rightarrow> None
                    | Some e \<Rightarrow> Some (take e ip @ replicate (16 - length ip) 0 @ drop e ip))
                 else if ellipsis \<noteq> None then None
                 else Some ip)"

definition v4_prefix :: bytes where
  "v4_prefix = replicate 10 0 @ [0xFF, 0xFF]"

definition ParseIP :: "string \<Rightarrow> bytes option" where
  "ParseIP s =
     (case find (\<lambda>c. c = CHR ''.'' \<or> c = CHR '':'' \<or> c = CHR ''%'') s of
        None \<Rightarrow> None
      | Some c \<Rightarrow>
          if c = CHR ''.'' then map_option (\<lambda>q. v4_prefix @ q) (ipv4_fields s 0 0 [])
          else if c = CHR '':'' then parse_ipv6 s
          else None)"

definition To4 :: "bytes \<Rightarrow> bytes option" where
  "To4 ip = (if length ip = 4 then Some ip
     else if length ip = 16 \<and> take 12 ip = v4_prefix then Some (drop 12 ip) else None)"

section \<open>Lengths\<close>

lemma ipv4_fields_length: "ipv4_fields s val digLen fields = Some q \<Longrightarrow> length fields \<le> 3 \<Longrightarrow> length q = 4"
  by (induction s val digLen fields rule: ipv4_fields.induct) (auto split: option.splits if_splits)

lemma ipv6_groups_length:
  "ipv6_groups n s ip e = Some (r, ip', e') \<Longrightarrow> length ip + 2 * n = 16 \<Longrightarrow>
    (\<forall>p. e = Some p \<longrightarrow> p \<le> length ip) \<Longrightarrow> length ip' \<le> 16 \<and> (\<forall>p. e' = Some p \<longrightarrow> p \<le> length ip')"
proof (induction n arbitrary: s ip e)
  case (Suc n)
  from Suc.prems(1) obtain acc off t where h: "hex_group s 0 0 = Some (acc, off, t)" "off \<noteq> 0"
    by (auto split: option.splits if_splits)
  let ?ip = "ip @ [of_nat (acc div 256), of_nat (acc mod 256)]"
  show ?case
  proof (cases "t \<noteq> [] \<and> hd t = CHR ''.''")
    case True
    with Suc.prems h obtain q where "ipv4_fields s 0 0 [] = Some q" "ip' = ip @ q" "e' = e"
      "length ip + 4 \<le> 16"
      by (auto split: if_splits)
    with ipv4_fields_length [of s 0 0 "[]" q] Suc.prems(3) show ?thesis by auto
  next
    case False
    with Suc.prems(1) h show ?thesis
      using Suc.IH [of _ ?ip] Suc.prems(2,3)
      by (fastforce simp: Let_def split: list.splits if_splits)
  qed
qed auto

lemma parse_ipv6_length: "parse_ipv6 s = Some ip \<Longrightarrow> length ip = 16"
  by (auto simp: parse_ipv6_def Let_def split: if_splits option.splits
      dest!: ipv6_groups_length)

lemma ParseIP_length: "ParseIP s = Some ip \<Longrightarrow> length ip = 16"
  by (auto simp: ParseIP_def v4_prefix_def parse_ipv6_length dest: ipv4_fields_length
      split: option.splits if_splits)

section \<open>Dotted quads\<close>

text \<open>The text of an IPv4 address, \<open>IP.String\<close>.\<close>

definition dotted :: "bytes \<Rightarrow> string" where
  "dotted q = format_nat (unat (q ! 0)) @ ''.'' @ format_nat (unat (q ! 1)) @ ''.''
     @ format_nat (unat (q ! 2)) @ ''.'' @ format_nat (unat (q ! 3))"

lemma decimal_digit_char [simp]: "d < 10 \<Longrightarrow> decimal_digit (digit_char d) = Some d"
  by (simp add: decimal_digit_def Let_def)

lemma decimal_digit_dot [simp]: "decimal_digit (CHR ''.'') = None"
  by (simp add: decimal_digit_def)

text \<open>A field of one to three digits without leading zero is read as its value.\<close>

lemma ipv4_fields_number:
  assumes "n < 256"
  shows "\<exists>k > 0. \<forall>rest. ipv4_fields (format_nat n @ rest) 0 0 fields = ipv4_fields rest n k fields"
proof -
  have d: "format_nat m = [digit_char m]" if "m < 10" for m
    using that by (subst format_nat.simps) simp
  consider "n < 10" | "10 \<le> n" "n < 100" | "100 \<le> n" by linarith
  then show ?thesis
  proof cases
    case 1
    then show ?thesis
      by (intro exI [of _ 1]) (simp add: d)
  next
    case 2
    then have digits: "format_nat n = [digit_char (n div 10), digit_char (n mod 10)]"
      by (subst format_nat.simps) (simp add: d)
    have two: "ipv4_fields ([digit_char a, digit_char b] @ rest) 0 0 fields = ipv4_fields rest (a * 10 + b) 2 fields"
      if "0 < a" "a < 10" "b < 10" for a b rest
      using that by (simp add: numeral_2_eq_2)
    have "ipv4_fields (format_nat n @ rest) 0 0 fields = ipv4_fields rest n 2 fields" for rest
      using 2 by (subst digits, subst two) simp_all
    then show ?thesis by (intro exI [of _ 2]) simp
  next
    case 3
    have "format_nat n = format_nat (n div 10) @ [digit_char (n mod 10)]"
      using 3 by (subst format_nat.simps) simp
    also have "format_nat (n div 10) = [digit_char (n div 10 div 10), digit_char (n div 10 mod 10)]"
      using 3 assms by (subst format_nat.simps) (simp add: d)
    finally have digits: "format_nat n = [digit_char (n div 10 div 10), digit_char (n div 10 mod 10), digit_char (n mod 10)]"
      by simp
    have three: "ipv4_fields ([digit_char a, digit_char b, digit_char c] @ rest) 0 0 fields
        = ipv4_fields rest ((a * 10 + b) * 10 + c) 3 fields"
      if "0 < a" "a < 10" "b < 10" "c < 10" "(a * 10 + b) * 10 + c < 256" for a b c rest
    proof -
      have "a * 10 + b \<le> 255" "\<not> 255 < (a * 10 + b) * 10 + c" "\<not> 255 < a * 10 + b" "\<not> 255 < a"
        using that by simp_all
      with that show ?thesis
        by (simp only: append.simps ipv4_fields.simps decimal_digit_char option.case mult_0 add_0) (simp add: numeral_3_eq_3)
    qed
    have "ipv4_fields (format_nat n @ rest) 0 0 fields = ipv4_fields rest n 3 fields" for rest
      using 3 assms by (subst digits, subst three) simp_all
    then show ?thesis by (intro exI [of _ 3]) simp
  qed
qed

text \<open>Printing and parsing are inverse on IPv4 addresses.\<close>

lemma ipv4_fields_dot:
  "0 < k \<Longrightarrow> s \<noteq> [] \<Longrightarrow> length fields < 3 \<Longrightarrow>
    ipv4_fields (CHR ''.'' # s) n k fields = ipv4_fields s 0 0 (fields @ [of_nat n])"
  by simp

lemma ipv4_fields_dotted:
  assumes "length q = 4"
  shows "ipv4_fields (dotted q) 0 0 [] = Some q"
proof -
  from assms obtain a b c d where q: "q = [a, b, c, d]"
    by (auto simp: numeral_eq_Suc length_Suc_conv)
  have field: "\<exists>k > 0. \<forall>rest. ipv4_fields (format_nat (unat x) @ rest) 0 0 fields = ipv4_fields rest (unat x) k fields"
    for x :: byte and fields
    by (rule ipv4_fields_number) (rule unat_byte_lt)
  have last: "ipv4_fields (format_nat (unat d)) 0 0 [a, b, c] = Some [a, b, c, d]"
    using field [of d "[a, b, c]"] by (auto dest: spec [of _ "[]"])
  have mid: "ipv4_fields (format_nat (unat x) @ CHR ''.'' # s) 0 0 fields = ipv4_fields s 0 0 (fields @ [x])"
    if "s \<noteq> []" "length fields < 3" for x s fields
    using field [of x fields] that by (auto simp: ipv4_fields_dot)
  show ?thesis
    by (simp add: q dotted_def mid last)
qed

lemma dotted_first: "length q = 4 \<Longrightarrow>
  find (\<lambda>c. c = CHR ''.'' \<or> c = CHR '':'' \<or> c = CHR ''%'') (dotted q) = Some (CHR ''.'')"
proof -
  have digit: "digit_char d \<noteq> c" if "d < 10" "57 < (of_char c :: nat) \<or> (of_char c :: nat) < 48" for d c
  proof
    assume "digit_char d = c"
    then have "(of_char (digit_char d) :: nat) = of_char c" by (simp only:)
    with that show False by simp
  qed
  let ?P = "\<lambda>c. c = CHR ''.'' \<or> c = CHR '':'' \<or> c = CHR ''%''"
  have skip: "find ?P (xs @ ys) = find ?P ys" if "\<forall>c \<in> set xs. \<not> ?P c" for xs ys
    using that by (induction xs) auto
  have "\<forall>c \<in> set (format_nat n). \<not> ?P c" for n
    using format_nat_digits [of _ n] digit [of _ "CHR ''.''"] digit [of _ "CHR '':''"] digit [of _ "CHR ''%''"]
    by fastforce
  from skip [OF this] show ?thesis
    by (simp add: dotted_def)
qed

lemma ParseIP_dotted: "length q = 4 \<Longrightarrow> ParseIP (dotted q) = Some (v4_prefix @ q)"
  by (simp add: ParseIP_def dotted_first ipv4_fields_dotted)

lemma To4_mapped: "length q = 4 \<Longrightarrow> To4 (v4_prefix @ q) = Some q"
  by (simp add: To4_def v4_prefix_def)

end
