(* ===== verification/Tls.thy ===== *)
theory Tls
  imports Transport Net_Addr
begin

text \<open>
  The TLS settings of the three transports (\<open>quic.go\<close>, \<open>sctp.go\<close> and
  \<open>sctpkernel_linux.go\<close>): the choice of the certificate, of the protocol name, and of the
  verification of the peer. Each transport has its own copy of these functions, and each copy
  has its own definitions here. Keys and certificates are made by Go's \<open>crypto\<close> packages from
  random numbers: their results are fields of an environment, whose type leaves keys,
  certificates and certificate pools abstract.
\<close>

section \<open>The environment\<close>

record cert_template =
  SerialNumber :: int
  CommonName :: string
  NotBefore :: int
  NotAfter :: int
  KeyUsage :: "string list"
  ExtKeyUsage :: "string list"
  BasicConstraintsValid :: bool
  IPAddresses :: "bytes list"
  DNSNames :: "string list"

record ('key, 'cert, 'pool) tls_env =
  env_now :: int
  LoadX509KeyPair :: "string \<Rightarrow> string \<Rightarrow> go_error + 'cert"
  GenerateKey :: "go_error + 'key"
  RandSerial :: "go_error + int"
  CreateCertificate :: "cert_template \<Rightarrow> 'key \<Rightarrow> go_error + bytes"
  X509KeyPair :: "bytes \<Rightarrow> 'key \<Rightarrow> go_error + 'cert"
  ReadCAFile :: "string \<Rightarrow> go_error + bytes"
  AppendCertsFromPEM :: "bytes \<Rightarrow> 'pool option"

record ('cert, 'pool) tls_config =
  MinVersion :: nat
  NextProtos :: "string list"
  Certificates :: "'cert list"
  ServerName :: string
  InsecureSkipVerify :: bool
  RootCAs :: "'pool option"

definition VersionTLS13 :: nat where "VersionTLS13 = 0x0304"

definition hour :: int where "hour = 3600 * 1000000000"

text \<open>The zero value of \<open>tls.Config\<close>.\<close>

definition zero_tls :: "('cert, 'pool) tls_config" where
  "zero_tls = \<lparr>MinVersion = 0, NextProtos = [], Certificates = [], ServerName = [],
     InsecureSkipVerify = False, RootCAs = None\<rparr>"

section \<open>The QUIC transport\<close>

definition quic_pickIP :: "string \<Rightarrow> string \<Rightarrow> string" where
  "quic_pickIP ip fallback = (if trim_space ip = [] then fallback else ip)"

definition quic_defaultALPN :: "config \<Rightarrow> string" where
  "quic_defaultALPN cfg = (if trim_space (ALPN cfg) \<noteq> [] then ALPN cfg else ''mock5g-v1'')"

definition quic_template :: "int \<Rightarrow> int \<Rightarrow> string \<Rightarrow> cert_template" where
  "quic_template serial now host =
     (let template = \<lparr>SerialNumber = serial, CommonName = ''mock5g-quic'', NotBefore = now - hour,
            NotAfter = now + 365 * 24 * hour, KeyUsage = [''DigitalSignature'', ''KeyEncipherment''],
            ExtKeyUsage = [''ServerAuth''], BasicConstraintsValid = True, IPAddresses = [], DNSNames = []\<rparr>
      in case ParseIP host of
           Some ip \<Rightarrow> template\<lparr>IPAddresses := [ip]\<rparr>
         | None \<Rightarrow> if host \<noteq> [] then template\<lparr>DNSNames := [host]\<rparr> else template)"

definition quic_generateSelfSignedCert :: "('key, 'cert, 'pool) tls_env \<Rightarrow> string \<Rightarrow> go_error + 'cert" where
  "quic_generateSelfSignedCert env host =
     (case GenerateKey env of
        Inl err \<Rightarrow> Inl (Wrapf ''generate rsa key: %w'' err)
      | Inr priv \<Rightarrow>
          (case RandSerial env of
             Inl err \<Rightarrow> Inl (Wrapf ''generate serial: %w'' err)
           | Inr serial \<Rightarrow>
               (case CreateCertificate env (quic_template serial (env_now env) host) priv of
                  Inl err \<Rightarrow> Inl (Wrapf ''create cert: %w'' err)
                | Inr der \<Rightarrow>
                    (case X509KeyPair env der priv of
                       Inl err \<Rightarrow> Inl (Wrapf ''x509 key pair: %w'' err)
                     | Inr cert \<Rightarrow> Inr cert))))"

definition quic_serverTLSConfig :: "('key, 'cert, 'pool) tls_env \<Rightarrow> config \<Rightarrow> go_error + ('cert, 'pool) tls_config" where
  "quic_serverTLSConfig env cfg =
     (let alpn = quic_defaultALPN cfg;
          cert = (if CertFile cfg \<noteq> [] \<or> KeyFile cfg \<noteq> [] then
              (if CertFile cfg = [] \<or> KeyFile cfg = []
               then Inl (Errorf ''both cert_file and key_file are required'' [] [])
               else case LoadX509KeyPair env (CertFile cfg) (KeyFile cfg) of
                   Inl err \<Rightarrow> Inl (Wrapf ''load x509 key pair: %w'' err)
                 | Inr cert \<Rightarrow> Inr cert)
            else quic_generateSelfSignedCert env (quic_pickIP (LocalIP cfg) ''127.0.0.1''))
      in case cert of
           Inl err \<Rightarrow> Inl err
         | Inr cert \<Rightarrow> Inr (zero_tls\<lparr>MinVersion := VersionTLS13, NextProtos := [alpn], Certificates := [cert]\<rparr>))"

definition quic_clientTLSConfig :: "('key, 'cert, 'pool) tls_env \<Rightarrow> config \<Rightarrow> go_error + ('cert, 'pool) tls_config" where
  "quic_clientTLSConfig env cfg =
     (let alpn = quic_defaultALPN cfg;
          tlsCfg = zero_tls\<lparr>MinVersion := VersionTLS13, NextProtos := [alpn], ServerName := RemoteIP cfg\<rparr>
      in if CAFile cfg = [] then Inr (tlsCfg\<lparr>InsecureSkipVerify := True\<rparr>)
         else case ReadCAFile env (CAFile cfg) of
             Inl err \<Rightarrow> Inl (Wrapf ''read ca file: %w'' err)
           | Inr caPEM \<Rightarrow>
               (case AppendCertsFromPEM env caPEM of
                  None \<Rightarrow> Inl (Errorf ''append CA cert failed'' [] [])
                | Some roots \<Rightarrow> Inr (tlsCfg\<lparr>RootCAs := Some roots\<rparr>)))"

section \<open>The SCTP library transport\<close>

definition sctp_pickIP :: "string \<Rightarrow> string \<Rightarrow> string" where
  "sctp_pickIP ip fallback = (if trim_space ip = [] then fallback else ip)"

definition sctp_defaultALPN :: "config \<Rightarrow> string" where
  "sctp_defaultALPN cfg = (if trim_space (ALPN cfg) \<noteq> [] then ALPN cfg else ''mock5g-v1'')"

definition sctp_template :: "int \<Rightarrow> int \<Rightarrow> string \<Rightarrow> cert_template" where
  "sctp_template serial now host =
     (let template = \<lparr>SerialNumber = serial, CommonName = ''mock5g-sctp-tls'', NotBefore = now - hour,
            NotAfter = now + 365 * 24 * hour, KeyUsage = [''DigitalSignature'', ''KeyEncipherment''],
            ExtKeyUsage = [''ServerAuth''], BasicConstraintsValid = True, IPAddresses = [], DNSNames = []\<rparr>
      in case ParseIP host of
           Some ip \<Rightarrow> template\<lparr>IPAddresses := [ip]\<rparr>
         | None \<Rightarrow> if host \<noteq> [] then template\<lparr>DNSNames := [host]\<rparr> else template)"

definition sctp_generateSelfSignedCert :: "('key, 'cert, 'pool) tls_env \<Rightarrow> string \<Rightarrow> go_error + 'cert" where
  "sctp_generateSelfSignedCert env host =
     (case GenerateKey env of
        Inl err \<Rightarrow> Inl (Wrapf ''generate rsa key: %w'' err)
      | Inr priv \<Rightarrow>
          (case RandSerial env of
             Inl err \<Rightarrow> Inl (Wrapf ''generate serial: %w'' err)
           | Inr serial \<Rightarrow>
               (case CreateCertificate env (sctp_template serial (env_now env) host) priv of
                  Inl err \<Rightarrow> Inl (Wrapf ''create cert: %w'' err)
                | Inr der \<Rightarrow>
                    (case X509KeyPair env der priv of
                       Inl err \<Rightarrow> Inl (Wrapf ''x509 key pair: %w'' err)
                     | Inr cert \<Rightarrow> Inr cert))))"

definition sctpServerTLSConfig :: "('key, 'cert, 'pool) tls_env \<Rightarrow> config \<Rightarrow> go_error + ('cert, 'pool) tls_config" where
  "sctpServerTLSConfig env cfg =
     (let alpn = sctp_defaultALPN cfg;
          cert = (if CertFile cfg \<noteq> [] \<or> KeyFile cfg \<noteq> [] then
              (if CertFile cfg = [] \<or> KeyFile cfg = []
               then Inl (Errorf ''both cert_file and key_file are required'' [] [])
               else case LoadX509KeyPair env (CertFile cfg) (KeyFile cfg) of
                   Inl err \<Rightarrow> Inl (Wrapf ''load x509 key pair: %w'' err)
                 | Inr cert \<Rightarrow> Inr cert)
            else sctp_generateSelfSignedCert env (sctp_pickIP (LocalIP cfg) ''127.0.0.1''))
      in case cert of
           Inl err \<Rightarrow> Inl err
         | Inr cert \<Rightarrow>
             let tlsCfg = zero_tls\<lparr>MinVersion := VersionTLS13, Certificates := [cert]\<rparr>
             in Inr (if trim_space alpn \<noteq> [] then tlsCfg\<lparr>NextProtos := [alpn]\<rparr> else tlsCfg))"

definition sctpClientTLSConfig :: "('key, 'cert, 'pool) tls_env \<Rightarrow> config \<Rightarrow> go_error + ('cert, 'pool) tls_config" where
  "sctpClientTLSConfig env cfg =
     (let alpn = sctp_defaultALPN cfg;
          tlsCfg = zero_tls\<lparr>MinVersion := VersionTLS13, ServerName := RemoteIP cfg\<rparr>;
          tlsCfg = (if trim_space alpn \<noteq> [] then tlsCfg\<lparr>NextProtos := [alpn]\<rparr> else tlsCfg)
      in if CAFile cfg = [] then Inr (tlsCfg\<lparr>InsecureSkipVerify := True\<rparr>)
         else case ReadCAFile env (CAFile cfg) of
             Inl err \<Rightarrow> Inl (Wrapf ''read ca file: %w'' err)
           | Inr caPEM \<Rightarrow>
               (case AppendCertsFromPEM env caPEM of
                  None \<Rightarrow> Inl (Errorf ''append CA cert failed'' [] [])
                | Some roots \<Rightarrow> Inr (tlsCfg\<lparr>RootCAs := Some roots\<rparr>)))"

section \<open>The kernel SCTP transport\<close>

definition kernel_pickIP :: "string \<Rightarrow> string \<Rightarrow> string" where
  "kernel_pickIP ip fallback = (if trim_space ip = [] then fallback else ip)"

definition kernel_defaultALPN :: "config \<Rightarrow> string" where
  "kernel_defaultALPN cfg = (if trim_space (ALPN cfg) \<noteq> [] then ALPN cfg else ''mock5g-v1'')"

definition kernel_template :: "int \<Rightarrow> int \<Rightarrow> string \<Rightarrow> cert_template" where
  "kernel_template serial now host =
     (let template = \<lparr>SerialNumber = serial, CommonName = ''mock5g-sctp-kernel'', NotBefore = now - hour,
            NotAfter = now + 365 * 24 * hour, KeyUsage = [''DigitalSignature'', ''KeyEncipherment''],
            ExtKeyUsage = [''ServerAuth''], BasicConstraintsValid = True, IPAddresses = [], DNSNames = []\<rparr>
      in case ParseIP host of
           Some ip \<Rightarrow> template\<lparr>IPAddresses := [ip]\<rparr>
         | None \<Rightarrow> if host \<noteq> [] then template\<lparr>DNSNames := [host]\<rparr> else template)"

definition kernel_generateSelfSignedCert :: "('key, 'cert, 'pool) tls_env \<Rightarrow> string \<Rightarrow> go_error + 'cert" where
  "kernel_generateSelfSignedCert env host =
     (case GenerateKey env of
        Inl err \<Rightarrow> Inl (Wrapf ''generate rsa key: %w'' err)
      | Inr priv \<Rightarrow>
          (case RandSerial env of
             Inl err \<Rightarrow> Inl (Wrapf ''generate serial: %w'' err)
           | Inr serial \<Rightarrow>
               (case CreateCertificate env (kernel_template serial (env_now env) host) priv of
                  Inl err \<Rightarrow> Inl (Wrapf ''create cert: %w'' err)
                | Inr der \<Rightarrow>
                    (case X509KeyPair env der priv of
                       Inl err \<Rightarrow> Inl (Wrapf ''x509 key pair: %w'' err)
                     | Inr cert \<Rightarrow> Inr cert))))"

definition kernel_serverTLSConfig :: "('key, 'cert, 'pool) tls_env \<Rightarrow> config \<Rightarrow> go_error + ('cert, 'pool) tls_config" where
  "kernel_serverTLSConfig env cfg =
     (let alpn = kernel_defaultALPN cfg;
          cert = (if CertFile cfg \<noteq> [] \<or> KeyFile cfg \<noteq> [] then
              (if CertFile cfg = [] \<or> KeyFile cfg = []
               then Inl (Errorf ''both cert_file and key_file are required'' [] [])
               else case LoadX509KeyPair env (CertFile cfg) (KeyFile cfg) of
                   Inl err \<Rightarrow> Inl (Wrapf ''load x509 key pair: %w'' err)
                 | Inr cert \<Rightarrow> Inr cert)
            else kernel_generateSelfSignedCert env (kernel_pickIP (LocalIP cfg) ''127.0.0.1''))
      in case cert of
           Inl err \<Rightarrow> Inl err
         | Inr cert \<Rightarrow>
             let tlsCfg = zero_tls\<lparr>MinVersion := VersionTLS13, Certificates := [cert]\<rparr>
             in Inr (if trim_space alpn \<noteq> [] then tlsCfg\<lparr>NextProtos := [alpn]\<rparr> else tlsCfg))"

definition kernel_clientTLSConfig :: "('key, 'cert, 'pool) tls_env \<Rightarrow> config \<Rightarrow> go_error + ('cert, 'pool) tls_config" where
  "kernel_clientTLSConfig env cfg =
     (let alpn = kernel_defaultALPN cfg;
          tlsCfg = zero_tls\<lparr>MinVersion := VersionTLS13, ServerName := RemoteIP cfg\<rparr>;
          tlsCfg = (if trim_space alpn \<noteq> [] then tlsCfg\<lparr>NextProtos := [alpn]\<rparr> else tlsCfg)
      in if CAFile cfg = [] then Inr (tlsCfg\<lparr>InsecureSkipVerify := True\<rparr>)
         else case ReadCAFile env (CAFile cfg) of
             Inl err \<Rightarrow> Inl (Wrapf ''read ca file: %w'' err)
           | Inr caPEM \<Rightarrow>
               (case AppendCertsFromPEM env caPEM of
                  None \<Rightarrow> Inl (Errorf ''append CA cert failed'' [] [])
                | Some roots \<Rightarrow> Inr (tlsCfg\<lparr>RootCAs := Some roots\<rparr>)))"

section \<open>Lemmas\<close>

text \<open>The protocol name is never blank, so the guards of the SCTP copies always hold.\<close>

lemma trim_space_mock5g: "trim_space ''mock5g-v1'' \<noteq> []"
proof -
  have "plain_char (CHR ''m'')" "plain_char (CHR ''1'')"
    by (simp_all add: plain_char_def space_encodings_def)
  then show ?thesis
    using trim_space_plain [of "''mock5g-v1''"] by simp
qed

lemma defaultALPN_eqs:
  "quic_defaultALPN cfg = kernel_defaultALPN cfg" "sctp_defaultALPN cfg = kernel_defaultALPN cfg"
  "trim_space (kernel_defaultALPN cfg) \<noteq> []"
  by (simp_all add: quic_defaultALPN_def sctp_defaultALPN_def kernel_defaultALPN_def trim_space_mock5g)

lemma clientTLSConfig_eqs:
  "quic_clientTLSConfig env cfg = kernel_clientTLSConfig env cfg"
  "sctpClientTLSConfig env cfg = kernel_clientTLSConfig env cfg"
  by (simp_all add: quic_clientTLSConfig_def sctpClientTLSConfig_def kernel_clientTLSConfig_def
      defaultALPN_eqs Let_def zero_tls_def split: sum.splits option.splits)

lemma client_settings:
  assumes "kernel_clientTLSConfig env cfg = Inr t"
  shows "MinVersion t = VersionTLS13 \<and> NextProtos t = [kernel_defaultALPN cfg] \<and> ServerName t = RemoteIP cfg
    \<and> (InsecureSkipVerify t \<longleftrightarrow> CAFile cfg = []) \<and> (RootCAs t \<noteq> None \<longleftrightarrow> CAFile cfg \<noteq> [])"
  using assms
  by (auto simp: kernel_clientTLSConfig_def Let_def defaultALPN_eqs zero_tls_def
      split: if_splits sum.splits option.splits)

lemma server_settings:
  assumes "quic_serverTLSConfig env cfg = Inr u \<or> sctpServerTLSConfig env cfg = Inr u
    \<or> kernel_serverTLSConfig env cfg = Inr u"
  shows "MinVersion u = VersionTLS13 \<and> NextProtos u = [kernel_defaultALPN cfg] \<and> (\<exists>c. Certificates u = [c])"
  using assms
  by (auto simp: quic_serverTLSConfig_def sctpServerTLSConfig_def kernel_serverTLSConfig_def Let_def
      defaultALPN_eqs split: sum.splits)

section \<open>Properties\<close>

text \<open>C26: The TLS settings of the three transports are interchangeable. A client of any transport and
  a server of any transport both insist on TLS 1.3; the client verifies the server exactly when a
  CA file is configured, against the certificates of that file and the remote address; the server
  has exactly one certificate; and with the same ALPN setting they offer the same single protocol
  name, which is never blank, so that the negotiation succeeds.\<close>

theorem tls_settings:
  assumes "client \<in> {quic_clientTLSConfig, sctpClientTLSConfig, kernel_clientTLSConfig}"
    and "server \<in> {quic_serverTLSConfig, sctpServerTLSConfig, kernel_serverTLSConfig}"
    and "client env cfg = Inr t" and "server env' scfg = Inr u"
  shows "MinVersion t = VersionTLS13 \<and> MinVersion u = VersionTLS13
    \<and> (InsecureSkipVerify t \<longleftrightarrow> CAFile cfg = []) \<and> (RootCAs t \<noteq> None \<longleftrightarrow> CAFile cfg \<noteq> [])
    \<and> ServerName t = RemoteIP cfg \<and> length (Certificates u) = 1
    \<and> (\<exists>a. trim_space a \<noteq> [] \<and> NextProtos t = [a])
    \<and> (ALPN cfg = ALPN scfg \<longrightarrow> NextProtos t = NextProtos u)"
proof -
  have t: "kernel_clientTLSConfig env cfg = Inr t"
    using assms(1,3) by (auto simp: clientTLSConfig_eqs)
  have u: "quic_serverTLSConfig env' scfg = Inr u \<or> sctpServerTLSConfig env' scfg = Inr u
      \<or> kernel_serverTLSConfig env' scfg = Inr u"
    using assms(2,4) by auto
  from client_settings [OF t] server_settings [OF u] show ?thesis
    using defaultALPN_eqs(3) [of cfg] by (auto simp: kernel_defaultALPN_def)
qed

definition sample_env :: "(nat, nat, nat) tls_env" where
  "sample_env = \<lparr>env_now = 0, LoadX509KeyPair = (\<lambda>c k. Inr 1), GenerateKey = Inr 2, RandSerial = Inr 3,
     CreateCertificate = (\<lambda>t k. Inr []), X509KeyPair = (\<lambda>d k. Inr 4), ReadCAFile = (\<lambda>p. Inr [1]),
     AppendCertsFromPEM = (\<lambda>b. Some 5)\<rparr>"

theorem tls_settings_witness:
  "\<exists>t u. quic_clientTLSConfig sample_env (zero_config\<lparr>CAFile := ''ca.pem''\<rparr>) = Inr t
    \<and> kernel_serverTLSConfig sample_env zero_config = Inr u
    \<and> \<not> InsecureSkipVerify t \<and> NextProtos t = NextProtos u"
proof -
  obtain t where t: "quic_clientTLSConfig sample_env (zero_config\<lparr>CAFile := ''ca.pem''\<rparr>) = Inr t"
    by (simp add: quic_clientTLSConfig_def sample_env_def Let_def)
  obtain u where u: "kernel_serverTLSConfig sample_env zero_config = Inr u"
    by (simp add: kernel_serverTLSConfig_def sample_env_def Let_def zero_config_def
        kernel_generateSelfSignedCert_def)
  from tls_settings [of quic_clientTLSConfig kernel_serverTLSConfig, OF _ _ t u] t u show ?thesis
    by (auto simp: zero_config_def)
qed

end
