(* ===== verification/Kernel_Socket.thy ===== *)
theory Kernel_Socket
  imports Tls Kernel_Channel Fd_Run
begin

unbundle bit_operations_syntax

text \<open>
  Sockets and sessions of \<open>pkg/transport/sctpkernel/sctpkernel_linux.go\<close>: \<open>Listen\<close>,
  \<open>Accept\<close>, \<open>Dial\<close> and \<open>Close\<close>, with every system call they make. The calls are answered
  by the script of the \<open>world\<close>; an answer of \<open>socket\<close> or \<open>accept\<close> is the new descriptor. The
  TLS handshake belongs to \<open>crypto/tls\<close>: it is an argument, a function of the connection it
  runs over, and \<open>handshake_ok\<close> states what the code relies on.
\<close>

section \<open>System calls\<close>

type_synonym 'a sys = "world \<Rightarrow> ('a \<times> world) option"

definition sys_call :: "syscall \<Rightarrow> answer sys" where
  "sys_call c w = (case script w of [] \<Rightarrow> None | a # _ \<Rightarrow> Some (a, called c w))"

text \<open>\<open>_ = unix.Close(fd)\<close>, then the error return that follows it everywhere.\<close>

definition fail_closed :: "int \<Rightarrow> go_error \<Rightarrow> (go_error + 'a) sys" where
  "fail_closed n err w = do { (_, w) \<leftarrow> sys_call (SysClose n) w; Some (Inl err, w) }"

definition AF_INET :: nat where "AF_INET = 2"
definition AF_INET6 :: nat where "AF_INET6 = 10"

definition resolveSockAddr :: "string \<Rightarrow> int \<Rightarrow> go_error + (nat \<times> sockaddr)" where
  "resolveSockAddr ipStr port =
     (case ParseIP ipStr of
        None \<Rightarrow> Inl (Errorf ''invalid ip %q'' [] [ipStr])
      | Some ip \<Rightarrow>
          (case To4 ip of
             Some ip4 \<Rightarrow> Inr (AF_INET, Inet4 ip4 port)
           | None \<Rightarrow> Inr (AF_INET6, Inet6 ip port)))"

text \<open>
  \<open>pollFD\<close> polls in rounds of 100 ms until the descriptor is ready or the context is done.
  \<open>None\<close> goes round the loop again.
\<close>

definition poll_fd_verdict :: "u16 \<Rightarrow> answer \<Rightarrow> go_error option option" where
  "poll_fd_verdict events a =
     (case a_err a of
        Some err \<Rightarrow> if err = EINTR then None else Some (Some (Errno err))
      | None \<Rightarrow>
          if a_val a = 0 then None
          else if poll_failed (a_re a) then Some (Some poll_error)
          else if a_re a AND events \<noteq> 0 then Some None
          else None)"

function pollFD :: "int \<Rightarrow> u16 \<Rightarrow> go_error option sys" where
  "pollFD n events w =
     (case script w of
        [] \<Rightarrow> None
      | a # _ \<Rightarrow>
          if a_ctx a \<noteq> None then Some (a_ctx a, w)
          else (case poll_fd_verdict events a of
              Some r \<Rightarrow> Some (r, called (SysPoll n events 100) w)
            | None \<Rightarrow> pollFD n events (called (SysPoll n events 100) w)))"
  by pat_completeness auto
termination
  by (relation "measure (\<lambda>(n, events, w). length (script w))") auto

declare pollFD.simps [simp del]

text \<open>The buffer sizes of the configuration; errors are ignored.\<close>

definition set_buffers :: "int \<Rightarrow> config \<Rightarrow> unit sys" where
  "set_buffers n cfg w = do {
     w \<leftarrow> (if 0 < ReadBuffer cfg
       then map_option snd (sys_call (SysSetsockopt n ''SO_RCVBUF'' (ReadBuffer cfg)) w) else Some w);
     w \<leftarrow> (if 0 < WriteBuffer cfg
       then map_option snd (sys_call (SysSetsockopt n ''SO_SNDBUF'' (WriteBuffer cfg)) w) else Some w);
     Some ((), w) }"

section \<open>Sessions\<close>

record klistener =
  kl_fd :: int
  kl_cfg :: config

text \<open>\<open>s_tls\<close>: the session's \<open>rw\<close> is a TLS connection over \<open>base\<close>, not \<open>base\<close> itself.\<close>

record ksession =
  s_cfg :: config
  s_base :: fd_conn
  s_tls :: bool
  s_closed :: bool

text \<open>
  A handshake as the server or as the client with the given settings, over the connection,
  under a context with the given deadline.
\<close>

type_synonym ('cert, 'pool) handshake =
  "bool \<Rightarrow> ('cert, 'pool) tls_config \<Rightarrow> int option \<Rightarrow> fd_conn \<times> world \<Rightarrow> (go_error option \<times> fd_conn \<times> world) option"

definition handshakeWithContext :: "('cert, 'pool) handshake \<Rightarrow> bool \<Rightarrow> ('cert, 'pool) tls_config \<Rightarrow>
    int option \<Rightarrow> int \<Rightarrow> int \<Rightarrow> fd_conn \<times> world \<Rightarrow> (go_error option \<times> fd_conn \<times> world) option" where
  "handshakeWithContext hs server tls dl now timeout s =
     hs server tls (if 0 < timeout then with_timeout dl now timeout else dl) s"

definition enableServerTLS :: "('key, 'cert, 'pool) tls_env \<Rightarrow> ('cert, 'pool) handshake \<Rightarrow> int option \<Rightarrow>
    int \<Rightarrow> config \<Rightarrow> fd_conn \<times> world \<Rightarrow> (go_error option \<times> fd_conn \<times> world) option" where
  "enableServerTLS env hs dl now cfg s =
     (case kernel_serverTLSConfig env cfg of
        Inl err \<Rightarrow> Some (Some err, s)
      | Inr tls \<Rightarrow> do {
          (e, s) \<leftarrow> handshakeWithContext hs True tls dl now (ConnectTimeout cfg) s;
          Some (map_option (Wrapf ''sctp-kernel tls server handshake: %w'') e, s) })"

definition enableClientTLS :: "('key, 'cert, 'pool) tls_env \<Rightarrow> ('cert, 'pool) handshake \<Rightarrow> int option \<Rightarrow>
    int \<Rightarrow> config \<Rightarrow> fd_conn \<times> world \<Rightarrow> (go_error option \<times> fd_conn \<times> world) option" where
  "enableClientTLS env hs dl now cfg s =
     (case kernel_clientTLSConfig env cfg of
        Inl err \<Rightarrow> Some (Some err, s)
      | Inr tls \<Rightarrow> do {
          (e, s) \<leftarrow> handshakeWithContext hs False tls dl now (ConnectTimeout cfg) s;
          Some (map_option (Wrapf ''sctp-kernel tls client handshake: %w'') e, s) })"

text \<open>The end of \<open>Accept\<close> and \<open>Dial\<close>: wrap the descriptor, and run TLS if it is configured.\<close>

definition start_session :: "(config \<Rightarrow> fd_conn \<times> world \<Rightarrow> (go_error option \<times> fd_conn \<times> world) option) \<Rightarrow>
    config \<Rightarrow> int \<Rightarrow> (go_error + ksession) sys" where
  "start_session enable cfg n w =
     (let base = newFDConn n
      in if TLS cfg then do {
           (e, base, w) \<leftarrow> enable cfg (base, w);
           (case e of
              Some err \<Rightarrow> do { (_, w) \<leftarrow> fd_close base w; Some (Inl err, w) }
            | None \<Rightarrow> Some (Inr \<lparr>s_cfg = cfg, s_base = base, s_tls = True, s_closed = False\<rparr>, w)) }
         else Some (Inr \<lparr>s_cfg = cfg, s_base = base, s_tls = False, s_closed = False\<rparr>, w))"

section \<open>Listen\<close>

definition kernel_Listen :: "config \<Rightarrow> (go_error + klistener) sys" where
  "kernel_Listen cfg w =
     (case resolveSockAddr (kernel_pickIP (LocalIP cfg) ''0.0.0.0'') (LocalPort cfg) of
        Inl err \<Rightarrow> Some (Inl err, w)
      | Inr (family, sa) \<Rightarrow> do {
          (a, w) \<leftarrow> sys_call (SysSocket family) w;
          (case a_err a of
             Some err \<Rightarrow> Some (Inl (Wrapf ''socket: %w'' (Errno err)), w)
           | None \<Rightarrow>
               let n = int (a_val a) in do {
               (a, w) \<leftarrow> sys_call (SysSetNonblock n) w;
               (case a_err a of
                  Some err \<Rightarrow> fail_closed n (Wrapf ''set nonblock: %w'' (Errno err)) w
                | None \<Rightarrow> do {
                    (_, w) \<leftarrow> sys_call (SysSetsockopt n ''SO_REUSEADDR'' 1) w;
                    (_, w) \<leftarrow> set_buffers n cfg w;
                    (a, w) \<leftarrow> sys_call (SysBind n sa) w;
                    (case a_err a of
                       Some err \<Rightarrow> fail_closed n (Wrapf ''bind: %w'' (Errno err)) w
                     | None \<Rightarrow> do {
                         (a, w) \<leftarrow> sys_call (SysListen n) w;
                         (case a_err a of
                            Some err \<Rightarrow> fail_closed n (Wrapf ''listen: %w'' (Errno err)) w
                          | None \<Rightarrow> Some (Inr \<lparr>kl_fd = n, kl_cfg = cfg\<rparr>, w)) }) }) }) })"

section \<open>Accept\<close>

definition accept_retry :: "nat \<Rightarrow> bool" where
  "accept_retry err \<longleftrightarrow> err = EAGAIN \<or> err = EINTR"

text \<open>What follows a successful \<open>accept\<close>.\<close>

definition accepted :: "(config \<Rightarrow> fd_conn \<times> world \<Rightarrow> (go_error option \<times> fd_conn \<times> world) option) \<Rightarrow>
    config \<Rightarrow> int \<Rightarrow> (go_error + ksession) sys" where
  "accepted enable cfg n w = do {
     (a, w) \<leftarrow> sys_call (SysSetNonblock n) w;
     (case a_err a of
        Some err \<Rightarrow> fail_closed n (Wrapf ''set nonblock: %w'' (Errno err)) w
      | None \<Rightarrow> start_session enable cfg n w) }"

lemma pollFD_length: "pollFD n events w = Some (r, w') \<Longrightarrow> length (script w') \<le> length (script w)"
proof (induction "length (script w)" arbitrary: w rule: less_induct)
  case less
  from less.prems obtain a as where s: "script w = a # as"
    by (subst (asm) pollFD.simps) (auto split: list.splits)
  show ?case
  proof (cases "poll_fd_verdict events a")
    case None
    with less.prems s less.hyps [of "called (SysPoll n events 100) w"] show ?thesis
      by (subst (asm) pollFD.simps) (auto split: if_splits)
  next
    case (Some v)
    with less.prems s show ?thesis
      by (subst (asm) pollFD.simps) (auto split: if_splits)
  qed
qed

function kernel_Accept :: "(config \<Rightarrow> fd_conn \<times> world \<Rightarrow> (go_error option \<times> fd_conn \<times> world) option) \<Rightarrow>
    klistener \<Rightarrow> (go_error + ksession) sys" where
  "kernel_Accept enable l w =
     (case pollFD (kl_fd l) POLLIN w of
        None \<Rightarrow> None
      | Some (Some err, w) \<Rightarrow> Some (Inl err, w)
      | Some (None, w) \<Rightarrow>
          (case script w of
             [] \<Rightarrow> None
           | a # _ \<Rightarrow>
               (case a_err a of
                  Some err \<Rightarrow>
                    if accept_retry err then kernel_Accept enable l (called (SysAccept (kl_fd l)) w)
                    else Some (Inl (Wrapf ''accept: %w'' (Errno err)), called (SysAccept (kl_fd l)) w)
                | None \<Rightarrow> accepted enable (kl_cfg l) (int (a_val a)) (called (SysAccept (kl_fd l)) w))))"
  by pat_completeness auto
termination
  by (relation "measure (\<lambda>(enable, l, w). length (script w))") (auto dest: pollFD_length)

declare kernel_Accept.simps [simp del]

section \<open>Dial\<close>

definition bind_local :: "int \<Rightarrow> config \<Rightarrow> go_error option sys" where
  "bind_local n cfg w =
     (if LocalIP cfg \<noteq> [] \<or> LocalPort cfg \<noteq> 0
      then case resolveSockAddr (kernel_pickIP (LocalIP cfg) ''0.0.0.0'') (LocalPort cfg) of
          Inl err \<Rightarrow> do { (_, w) \<leftarrow> sys_call (SysClose n) w; Some (Some err, w) }
        | Inr (_, laddr) \<Rightarrow> do {
            (a, w) \<leftarrow> sys_call (SysBind n laddr) w;
            (case a_err a of
               Some err \<Rightarrow> do { (_, w) \<leftarrow> sys_call (SysClose n) w;
                 Some (Some (Wrapf ''bind local: %w'' (Errno err)), w) }
             | None \<Rightarrow> Some (None, w)) }
      else Some (None, w))"

definition await_connect :: "int \<Rightarrow> sockaddr \<Rightarrow> go_error option sys" where
  "await_connect n raddr w = do {
     (a, w) \<leftarrow> sys_call (SysConnect n raddr) w;
     (case a_err a of
        None \<Rightarrow> Some (None, w)
      | Some err \<Rightarrow>
          if err \<noteq> EINPROGRESS
          then do { (_, w) \<leftarrow> sys_call (SysClose n) w; Some (Some (Wrapf ''connect: %w'' (Errno err)), w) }
          else do {
            (e, w) \<leftarrow> pollFD n POLLOUT w;
            (case e of
               Some err \<Rightarrow> do { (_, w) \<leftarrow> sys_call (SysClose n) w; Some (Some err, w) }
             | None \<Rightarrow> do {
                 (a, w) \<leftarrow> sys_call (SysGetsockopt n) w;
                 (case a_err a of
                    Some gerr \<Rightarrow> do { (_, w) \<leftarrow> sys_call (SysClose n) w;
                      Some (Some (Wrapf ''getsockopt SO_ERROR: %w'' (Errno gerr)), w) }
                  | None \<Rightarrow>
                      if a_val a \<noteq> 0
                      then do { (_, w) \<leftarrow> sys_call (SysClose n) w;
                        Some (Some (Wrapf ''connect: %w'' (Errno (a_val a))), w) }
                      else Some (None, w)) }) }) }"

definition kernel_Dial :: "(config \<Rightarrow> fd_conn \<times> world \<Rightarrow> (go_error option \<times> fd_conn \<times> world) option) \<Rightarrow>
    config \<Rightarrow> (go_error + ksession) sys" where
  "kernel_Dial enable cfg w =
     (if RemoteIP cfg = [] \<or> RemotePort cfg = 0
      then Some (Inl (Errorf ''remote_ip and remote_port are required'' [] []), w)
      else case resolveSockAddr (RemoteIP cfg) (RemotePort cfg) of
          Inl err \<Rightarrow> Some (Inl err, w)
        | Inr (family, raddr) \<Rightarrow> do {
            (a, w) \<leftarrow> sys_call (SysSocket family) w;
            (case a_err a of
               Some err \<Rightarrow> Some (Inl (Wrapf ''socket: %w'' (Errno err)), w)
             | None \<Rightarrow>
                 let n = int (a_val a) in do {
                 (a, w) \<leftarrow> sys_call (SysSetNonblock n) w;
                 (case a_err a of
                    Some err \<Rightarrow> fail_closed n (Wrapf ''set nonblock: %w'' (Errno err)) w
                  | None \<Rightarrow> do {
                      (_, w) \<leftarrow> set_buffers n cfg w;
                      (e, w) \<leftarrow> bind_local n cfg w;
                      (case e of
                         Some err \<Rightarrow> Some (Inl err, w)
                       | None \<Rightarrow> do {
                           (e, w) \<leftarrow> await_connect n raddr w;
                           (case e of
                              Some err \<Rightarrow> Some (Inl err, w)
                            | None \<Rightarrow> start_session enable cfg n w) }) }) }) })"

section \<open>Close\<close>

definition listener_Close :: "klistener \<Rightarrow> go_error option sys" where
  "listener_Close l w = do { (a, w) \<leftarrow> sys_call (SysClose (kl_fd l)) w; Some (map_option Errno (a_err a), w) }"

text \<open>A channel is a handle on the session's connection: closing it does nothing.\<close>

definition kernel_channel_Close :: "'s channel \<Rightarrow> 's \<Rightarrow> go_error option \<times> 's" where
  "kernel_channel_Close ch s = (None, s)"

text \<open>\<open>tls_close\<close> is \<open>tls.Conn.Close\<close> over the connection.\<close>

definition session_Close :: "(fd_conn \<times> world \<Rightarrow> (go_error option \<times> fd_conn \<times> world) option) \<Rightarrow>
    ksession \<times> world \<Rightarrow> (go_error option \<times> ksession \<times> world) option" where
  "session_Close tls_close st =
     (case st of (s, w) \<Rightarrow>
        if s_closed s then Some (None, s, w)
        else
          let s = s\<lparr>s_closed := True\<rparr>
          in do {
            (e, base, w) \<leftarrow> (if s_tls s then tls_close (s_base s, w)
              else map_option (\<lambda>((e, c), w). (e, c, w)) (fd_close (s_base s) w));
            Some (e, s\<lparr>s_base := base\<rparr>, w) })"

section \<open>Descriptors that are opened and closed\<close>

text \<open>
  Every descriptor that \<open>socket\<close> or \<open>accept\<close> returns is made non-blocking at once, so
  \<open>opened\<close> lists the descriptors a trace has obtained, and \<open>shut\<close> those it has closed.
\<close>

fun opened_by :: "syscall \<Rightarrow> int list" where
  "opened_by (SysSetNonblock n) = [n]"
| "opened_by _ = []"

fun shut_by :: "syscall \<Rightarrow> int list" where
  "shut_by (SysClose n) = [n]"
| "shut_by _ = []"

definition opened :: "syscall list \<Rightarrow> int list" where
  "opened t = concat (map opened_by t)"

definition shut :: "syscall list \<Rightarrow> int list" where
  "shut t = concat (map shut_by t)"

lemma opened_simps [simp]: "opened [] = []" "opened (c # t) = opened_by c @ opened t" "opened (s @ t) = opened s @ opened t"
  by (simp_all add: opened_def)

lemma shut_simps [simp]: "shut [] = []" "shut (c # t) = shut_by c @ shut t" "shut (s @ t) = shut s @ shut t"
  by (simp_all add: shut_def)

text \<open>
  \<open>tidy n kept w w'\<close>: between \<open>w\<close> and \<open>w'\<close> no descriptor was obtained, and \<open>n\<close> was closed
  exactly once unless it is \<open>kept\<close>.
\<close>

definition tidy :: "int \<Rightarrow> bool \<Rightarrow> world \<Rightarrow> world \<Rightarrow> bool" where
  "tidy n kept w w' \<longleftrightarrow> opened (trace w') = opened (trace w)
     \<and> shut (trace w') = shut (trace w) @ (if kept then [] else [n])"

named_theorems tidy_intros

lemma tidy_refl [simp, tidy_intros]: "tidy n True w w"
  by (simp add: tidy_def)

lemma tidy_trans: "tidy n True u v \<Longrightarrow> tidy n kept v w \<Longrightarrow> tidy n kept u w"
  by (simp add: tidy_def)

lemma tidy_close [tidy_intros]: "tidy n False w (called (SysClose n) w)"
  by (simp add: tidy_def)

lemma tidy_call [tidy_intros]: "opened_by sc = [] \<Longrightarrow> shut_by sc = [] \<Longrightarrow> tidy n True w (called sc w)"
  by (simp add: tidy_def)

lemma tidy_conn_calls:
  assumes "conn_calls n w w' (if kept then [] else [SysClose n])"
  shows "tidy n kept w w'"
proof -
  have only: "conn_call n sc \<Longrightarrow> opened_by sc = [] \<and> shut_by sc = (if is_close sc then [n] else [])" for sc
    by (cases sc) simp_all
  have "list_all (conn_call n) cs \<Longrightarrow> opened cs = [] \<and> shut cs = map (\<lambda>_. n) (closes cs)" for cs
    by (induction cs) (simp_all add: only)
  with assms show ?thesis
    by (auto simp: conn_calls_def tidy_def)
qed

lemma sys_call_Some: "sys_call sc w = Some (a, w') \<Longrightarrow> w' = called sc w \<and> script w \<noteq> [] \<and> a = hd (script w)"
  by (auto simp: sys_call_def split: list.splits)

lemma fail_closed_tidy: "fail_closed n err w = Some (r, w') \<Longrightarrow> r = Inl err \<and> tidy n False w w'"
  by (auto simp: fail_closed_def tidy_close split: Option.bind_splits dest!: sys_call_Some)

lemma pollFD_tidy: "pollFD m events w = Some (r, w') \<Longrightarrow> tidy n True w w'"
proof (induction "length (script w)" arbitrary: w rule: less_induct)
  case less
  from less.prems obtain a as where s: "script w = a # as"
    by (subst (asm) pollFD.simps) (auto split: list.splits)
  have call: "tidy n True w (called (SysPoll m events 100) w)"
    by (simp add: tidy_call)
  from less.prems s less.hyps [of "called (SysPoll m events 100) w"] call show ?case
    by (subst (asm) pollFD.simps) (auto split: if_splits option.splits intro: tidy_trans)
qed

lemma set_buffers_tidy: "set_buffers m cfg w = Some (u, w') \<Longrightarrow> tidy n True w w'"
  by (auto simp: set_buffers_def tidy_def split: if_splits Option.bind_splits dest!: sys_call_Some)

section \<open>The handshake\<close>

text \<open>
  What the code relies on: a handshake uses the connection only through its methods, from as
  many goroutines as it likes (\<open>HandshakeContext\<close> closes the connection from a second one when
  its context ends), which are done when it returns; and when it reports success it has left
  the connection open.
\<close>

definition conn_used :: "fd_conn \<times> world \<Rightarrow> go_error option \<Rightarrow> fd_conn \<times> world \<Rightarrow> bool" where
  "conn_used s e s' \<longleftrightarrow>
     (\<exists>k. fd_use_step\<^sup>*\<^sup>* (idle_use k (fst s) (snd s)) (idle_use k (fst s') (snd s')))
     \<and> (e = None \<longrightarrow> fd_closed (fst s') = fd_closed (fst s))"

definition handshake_ok :: "(config \<Rightarrow> fd_conn \<times> world \<Rightarrow> (go_error option \<times> fd_conn \<times> world) option) \<Rightarrow> bool" where
  "handshake_ok enable \<longleftrightarrow> (\<forall>cfg s e s'. enable cfg s = Some (e, s') \<longrightarrow> conn_used s e s')"

lemma conn_used_refl [simp]: "conn_used s e s"
  by (auto simp: conn_used_def)

lemma conn_used_wrapped [simp]: "conn_used s (map_option f e) s' = conn_used s e s'"
  by (simp add: conn_used_def)

text \<open>A handshake that is one method call, or several in one goroutine, satisfies it.\<close>

lemma conn_used_alone:
  assumes "goroutine_step\<^sup>*\<^sup>* (c, w, False, Idle) (c', w', False, Idle)"
    and "e = None \<longrightarrow> fd_closed c' = fd_closed c"
  shows "conn_used (c, w) e (c', w')"
  using alone_run [OF assms(1)] assms(2) by (auto simp: conn_used_def)

lemma conn_used_methods:
  "fd_read c n w = Some (r, w') \<Longrightarrow> conn_used (c, w) e (c, w')"
  "fd_write c b w = Some (r', w') \<Longrightarrow> conn_used (c, w) e (c, w')"
  "fd_close c w = Some ((e', c'), w') \<Longrightarrow> conn_used (c, w) (Some err) (c', w')"
  using read_steps write_steps close_steps
  by (blast intro: conn_used_alone converse_rtranclp_into_rtranclp [where r = goroutine_step, OF call_io])+

text \<open>The invariant of the connection under a handshake, with the traces of this theory.\<close>

definition conn_inv :: "int \<Rightarrow> world \<Rightarrow> fd_conn \<times> world \<Rightarrow> bool" where
  "conn_inv n w s \<longleftrightarrow> fd (fst s) = n \<and> tidy n (\<not> fd_closed (fst s)) w (snd s)"

lemma fd_close_conn_inv:
  "fd_close c v = Some ((e, c'), v') \<Longrightarrow> conn_inv n w (c, v) \<Longrightarrow> conn_inv n w (c', v') \<and> fd_closed c'"
  by (auto simp: fd_close_def conn_inv_def tidy_def Let_def split: if_splits list.splits)

lemma fd_run_conn_inv:
  assumes "fd_use_step\<^sup>*\<^sup>* (idle_use k c v) (idle_use k c' v')" and "\<not> fd_closed c"
  shows "conn_inv (fd c) v (c', v')"
  using fd_run_idle [OF assms] tidy_conn_calls [of "fd c" v v' "\<not> fd_closed c'"]
  by (simp add: conn_inv_def split: if_splits)

text \<open>The settings around a handshake do not matter here.\<close>

lemma enable_handshake_ok:
  assumes "\<And>server tls dl s e s'. hs server tls dl s = Some (e, s') \<Longrightarrow> conn_used s e s'"
  shows "handshake_ok (enableServerTLS env hs dl now)" and "handshake_ok (enableClientTLS env hs dl now)"
  by (auto simp: handshake_ok_def enableServerTLS_def enableClientTLS_def handshakeWithContext_def
      split: sum.splits Option.bind_splits prod.splits dest: assms)

lemma start_session_tidy:
  assumes "handshake_ok enable" and "start_session enable cfg n w = Some (r, w')"
  shows "tidy n (\<exists>s. r = Inr s) w w' \<and> (\<forall>s. r = Inr s \<longrightarrow> fd (s_base s) = n \<and> \<not> fd_closed (s_base s)
    \<and> s_tls s = TLS cfg \<and> \<not> s_closed s)"
proof (cases "TLS cfg")
  case True
  with assms(2) obtain e c v where hs: "enable cfg (newFDConn n, w) = Some (e, c, v)"
    by (auto simp: start_session_def Let_def split: Option.bind_splits)
  have fresh: "\<not> fd_closed (newFDConn n)" "fd (newFDConn n) = n"
    by (simp_all add: newFDConn_def)
  from assms(1) hs fresh(1) obtain k where "fd_use_step\<^sup>*\<^sup>* (idle_use k (newFDConn n) w) (idle_use k c v)"
    and alive: "e = None \<longrightarrow> \<not> fd_closed c"
    by (fastforce simp: handshake_ok_def conn_used_def)
  from fd_run_conn_inv [OF this(1) fresh(1)] have inv: "conn_inv n w (c, v)"
    by (simp add: fresh(2))
  show ?thesis
  proof (cases e)
    case None
    with assms(2) True hs inv alive show ?thesis
      by (auto simp: start_session_def Let_def conn_inv_def)
  next
    case (Some err)
    with assms(2) True hs obtain e' c' where "fd_close c v = Some ((e', c'), w')" and r: "r = Inl err"
      by (auto simp: start_session_def Let_def split: Option.bind_splits)
    with fd_close_conn_inv [OF this(1) inv] show ?thesis
      by (auto simp: conn_inv_def)
  qed
next
  case False
  with assms(2) show ?thesis
    by (auto simp: start_session_def Let_def newFDConn_def)
qed

section \<open>Properties of Listen, Accept and Dial\<close>

text \<open>
  The result of an operation that makes a socket, against the traces before and after it: at
  most one descriptor was obtained; if the operation failed it has been closed, exactly once,
  and if it succeeded it is the one returned and nothing has been closed.
\<close>

definition fds_settled :: "(go_error + int) \<Rightarrow> world \<Rightarrow> world \<Rightarrow> bool" where
  "fds_settled r w w' \<longleftrightarrow>
     (\<exists>ns. length ns \<le> 1 \<and> opened (trace w') = opened (trace w) @ ns
       \<and> (case r of Inl e \<Rightarrow> shut (trace w') = shut (trace w) @ ns
          | Inr n \<Rightarrow> ns = [n] \<and> shut (trace w') = shut (trace w)))"

lemma settled_open:
  assumes "tidy n True w u" and "tidy n (\<exists>m. r = Inr m) (called (SysSetNonblock n) u) w'"
    and "\<And>m. r = Inr m \<Longrightarrow> m = n"
  shows "fds_settled r w w'"
  using assms by (intro exI [of _ "[n]"] iffD2 [OF fds_settled_def]) (auto simp: tidy_def split: sum.splits)

lemma settled_none: "tidy n True w w' \<Longrightarrow> fds_settled (Inl e) w w'"
  by (intro exI [of _ "[]"] iffD2 [OF fds_settled_def]) (simp add: tidy_def)

lemma bind_local_tidy: "bind_local n cfg w = Some (e, w') \<Longrightarrow> tidy n (e = None) w w'"
  by (auto simp: bind_local_def tidy_def split: if_splits sum.splits Option.bind_splits option.splits
      dest!: sys_call_Some)

lemma await_connect_tidy: "await_connect n raddr w = Some (e, w') \<Longrightarrow> tidy n (e = None) w w'"
  by (auto simp: await_connect_def tidy_def split: Option.bind_splits option.splits if_splits
      dest!: sys_call_Some pollFD_tidy [where n = n])

text \<open>The common part of \<open>Accept\<close> and \<open>Dial\<close> once the descriptor is ready.\<close>

abbreviation session_fd :: "go_error + ksession \<Rightarrow> go_error + int" where
  "session_fd r \<equiv> map_sum (\<lambda>e. e) (\<lambda>s. fd (s_base s)) r"

lemma accepted_settled:
  assumes "handshake_ok enable" and "tidy n True w0 w" and "accepted enable cfg n w = Some (r, w')"
  shows "fds_settled (session_fd r) w0 w'"
proof -
  let ?u = "called (SysSetNonblock n) w"
  from assms(3) consider err where "fail_closed n err ?u = Some (r, w')"
    | "start_session enable cfg n ?u = Some (r, w')"
    by (auto simp: accepted_def split: Option.bind_splits option.splits dest!: sys_call_Some)
  then show ?thesis
  proof cases
    case 1
    from fail_closed_tidy [OF this] show ?thesis
      by (intro settled_open [OF assms(2)]) auto
  next
    case 2
    from start_session_tidy [OF assms(1) this] show ?thesis
      by (intro settled_open [OF assms(2)]) (cases r; auto)+
  qed
qed

lemma kernel_Accept_settled:
  assumes "handshake_ok enable" and "tidy n True w0 w" and "kernel_Accept enable l w = Some (r, w')"
  shows "fds_settled (session_fd r) w0 w'"
  using assms(2,3)
proof (induction "length (script w)" arbitrary: w rule: less_induct)
  case less
  from less.prems(2) obtain e u where poll: "pollFD (kl_fd l) POLLIN w = Some (e, u)"
    by (subst (asm) kernel_Accept.simps) (auto split: option.splits)
  from tidy_trans [OF less.prems(1) pollFD_tidy [OF poll]] have u: "tidy m True w0 u" for m
    by (simp add: tidy_def)
  then have call: "tidy m True w0 (called (SysAccept (kl_fd l)) u)" for m
    by (simp add: tidy_def)
  have none: "fds_settled (Inl err) w0 u" "fds_settled (Inl err) w0 (called (SysAccept (kl_fd l)) u)" for err
    using settled_none [OF u] settled_none [OF call] by auto
  show ?case
  proof (cases e)
    case (Some err)
    with less.prems(2) poll none show ?thesis
      by (subst (asm) kernel_Accept.simps) auto
  next
    case None
    with less.prems(2) poll obtain a as where s: "script u = a # as"
      by (subst (asm) kernel_Accept.simps) (auto split: list.splits)
    from pollFD_length [OF poll] s
    have "kernel_Accept enable l (called (SysAccept (kl_fd l)) u) = Some (r, w') \<Longrightarrow> ?thesis"
      using less.hyps [OF _ call] by simp
    with less.prems(2) poll None s none call show ?thesis
      by (subst (asm) kernel_Accept.simps)
        (auto split: option.splits if_splits intro: accepted_settled [OF assms(1)])
  qed
qed

lemma kernel_Listen_settled:
  assumes "kernel_Listen cfg w = Some (r, w')"
  shows "fds_settled (map_sum (\<lambda>e. e) kl_fd r) w w'"
proof (cases "\<exists>family sa. resolveSockAddr (kernel_pickIP (LocalIP cfg) ''0.0.0.0'') (LocalPort cfg) = Inr (family, sa)
    \<and> script w \<noteq> [] \<and> a_err (hd (script w)) = None")
  case False
  then have "tidy 0 True w w' \<and> (\<exists>err. r = Inl err)"
    using assms by (auto simp: kernel_Listen_def tidy_def split: sum.splits Option.bind_splits option.splits
        dest!: sys_call_Some)
  then show ?thesis by (auto intro: settled_none)
next
  case True
  then obtain family sa where ok: "resolveSockAddr (kernel_pickIP (LocalIP cfg) ''0.0.0.0'') (LocalPort cfg) = Inr (family, sa)"
      "a_err (hd (script w)) = None" by blast
  let ?n = "int (a_val (hd (script w)))" and ?u = "called (SysSocket family) w"
  have "tidy ?n (\<exists>l. r = Inr l) (called (SysSetNonblock ?n) ?u) w' \<and> (\<forall>l. r = Inr l \<longrightarrow> kl_fd l = ?n)"
    using assms ok
    by (auto simp: kernel_Listen_def Let_def tidy_def split: Option.bind_splits option.splits
        dest!: sys_call_Some fail_closed_tidy set_buffers_tidy [where n = ?n])
  then show ?thesis
    by (intro settled_open [of ?n w ?u]) (cases r; auto simp: tidy_call)+
qed

lemma kernel_Dial_settled:
  assumes "handshake_ok enable" and "kernel_Dial enable cfg w = Some (r, w')"
  shows "fds_settled (session_fd r) w w'"
proof (cases "\<not> (RemoteIP cfg = [] \<or> RemotePort cfg = 0)
    \<and> (\<exists>family sa. resolveSockAddr (RemoteIP cfg) (RemotePort cfg) = Inr (family, sa)) \<and> script w \<noteq> []
    \<and> a_err (hd (script w)) = None")
  case False
  then have "tidy 0 True w w' \<and> (\<exists>err. r = Inl err)"
    using assms(2) by (auto simp: kernel_Dial_def tidy_def split: sum.splits if_splits Option.bind_splits option.splits
        dest!: sys_call_Some)
  then show ?thesis by (auto intro: settled_none)
next
  case True
  then obtain family sa where ok: "resolveSockAddr (RemoteIP cfg) (RemotePort cfg) = Inr (family, sa)"
      "a_err (hd (script w)) = None" "\<not> (RemoteIP cfg = [] \<or> RemotePort cfg = 0)" by blast
  let ?n = "int (a_val (hd (script w)))" and ?u = "called (SysSocket family) w"
  have "tidy ?n (\<exists>s. r = Inr s) (called (SysSetNonblock ?n) ?u) w' \<and> (\<forall>s. r = Inr s \<longrightarrow> fd (s_base s) = ?n)"
    using assms(2) ok
    by (auto simp: kernel_Dial_def Let_def tidy_def split: Option.bind_splits option.splits
        dest!: sys_call_Some fail_closed_tidy set_buffers_tidy [where n = ?n] bind_local_tidy await_connect_tidy
          start_session_tidy [OF assms(1)])
  then show ?thesis
    by (intro settled_open [of ?n w ?u]) (cases r; auto simp: tidy_call)+
qed

text \<open>C5: No descriptor leaks and none is closed twice. Whatever the kernel answers to \<open>Listen\<close>,
  \<open>Accept\<close> and \<open>Dial\<close>, with TLS or without: when the operation fails, the descriptor it had
  obtained, if any, has been closed exactly once and no other has been touched; when it
  succeeds it has obtained exactly the descriptor it returns, and that one is still open.\<close>

theorem descriptors_settled:
  assumes "handshake_ok enable"
  shows "(kernel_Listen cfg w = Some (rl, w1) \<longrightarrow> fds_settled (map_sum (\<lambda>e. e) kl_fd rl) w w1)
    \<and> (kernel_Accept enable l w = Some (ra, w2) \<longrightarrow> fds_settled (session_fd ra) w w2)
    \<and> (kernel_Dial enable cfg w = Some (rd, w3) \<longrightarrow> fds_settled (session_fd rd) w w3)"
  using kernel_Listen_settled kernel_Accept_settled [OF assms tidy_refl] kernel_Dial_settled [OF assms]
  by blast

text \<open>A kernel whose calls all succeed with the given values.\<close>

definition answers :: "nat list \<Rightarrow> answer list" where
  "answers = map (\<lambda>v. \<lparr>a_now = 0, a_ctx = None, a_err = None, a_val = v, a_re = POLLIN OR POLLOUT\<rparr>)"

definition fresh_world :: "answer list \<Rightarrow> world" where
  "fresh_world as = \<lparr>script = as, inbox = [], outbox = [], trace = []\<rparr>"

text \<open>A server whose handshake fails at once: the accepted descriptor 9 is closed again.\<close>

theorem descriptors_settled_witness:
  "\<exists>r w'. kernel_Accept (\<lambda>cfg s. Some (Some ErrEOF, s)) \<lparr>kl_fd = 3, kl_cfg = zero_config\<lparr>TLS := True\<rparr>\<rparr>
       (fresh_world (answers [1, 9, 0, 0])) = Some (Inl r, w')
     \<and> opened (trace w') = [9] \<and> shut (trace w') = [9]"
proof -
  let ?enable = "\<lambda>cfg s. Some (Some ErrEOF, s) :: (go_error option \<times> fd_conn \<times> world) option"
  let ?l = "\<lparr>kl_fd = 3, kl_cfg = zero_config\<lparr>TLS := True\<rparr>\<rparr>"
  have ok: "handshake_ok ?enable"
    by (auto simp: handshake_ok_def)
  have "\<exists>w'. kernel_Accept ?enable ?l (fresh_world (answers [1, 9, 0, 0])) = Some (Inl ErrEOF, w')
      \<and> opened (trace w') = [9]"
    by (subst kernel_Accept.simps, subst pollFD.simps)
      (simp add: fresh_world_def answers_def poll_fd_verdict_def poll_failed_def POLLIN_def POLLOUT_def POLLERR_def
        POLLHUP_def POLLNVAL_def accepted_def sys_call_def start_session_def Let_def fd_close_def newFDConn_def called_def)
  then obtain w' where run: "kernel_Accept ?enable ?l (fresh_world (answers [1, 9, 0, 0])) = Some (Inl ErrEOF, w')"
      and "opened (trace w') = [9]" by blast
  with descriptors_settled [OF ok, of undefined "fresh_world (answers [1, 9, 0, 0])" undefined undefined ?l "Inl ErrEOF" w'
      undefined undefined]
  show ?thesis by (auto simp: fds_settled_def fresh_world_def)
qed

text \<open>C37: A connection that fails while \<open>connect\<close> is in progress loses its reason. When \<open>poll\<close>
  reports an error event for the descriptor, as Linux does for a refused connection, \<open>Dial\<close>
  returns the bare text \<open>poll error\<close>: it closes the descriptor without asking for \<open>SO_ERROR\<close>,
  although the code after the poll is written to report that reason.\<close>

theorem connect_reason_lost:
  assumes "script w = a # b # c # rest" and "a_err a = Some EINPROGRESS"
    and "a_ctx b = None" and "a_err b = None" and "0 < a_val b" and "poll_failed (a_re b)"
  shows "\<exists>w'. await_connect n raddr w = Some (Some poll_error, w')
    \<and> trace w' = trace w @ [SysConnect n raddr, SysPoll n POLLOUT 100, SysClose n]"
proof -
  have "pollFD n POLLOUT (called (SysConnect n raddr) w)
      = Some (Some poll_error, called (SysPoll n POLLOUT 100) (called (SysConnect n raddr) w))"
    using assms by (subst pollFD.simps) (simp add: poll_fd_verdict_def)
  with assms show ?thesis
    by (simp add: await_connect_def sys_call_def EINPROGRESS_def)
qed

theorem connect_reason_lost_witness:
  "\<exists>w'. await_connect 7 (Inet4 [127, 0, 0, 1] 38412) (fresh_world
      [\<lparr>a_now = 0, a_ctx = None, a_err = Some EINPROGRESS, a_val = 0, a_re = 0\<rparr>,
       \<lparr>a_now = 0, a_ctx = None, a_err = None, a_val = 1, a_re = 28\<rparr>,
       \<lparr>a_now = 0, a_ctx = None, a_err = None, a_val = 0, a_re = 0\<rparr>]) = Some (Some poll_error, w')"
  using connect_reason_lost [of "fresh_world
      [\<lparr>a_now = 0, a_ctx = None, a_err = Some EINPROGRESS, a_val = 0, a_re = 0\<rparr>,
       \<lparr>a_now = 0, a_ctx = None, a_err = None, a_val = 1, a_re = 28\<rparr>,
       \<lparr>a_now = 0, a_ctx = None, a_err = None, a_val = 0, a_re = 0\<rparr>]" _ _ _ "[]" 7 "Inet4 [127, 0, 0, 1] 38412"]
  by (auto simp: fresh_world_def poll_failed_def POLLERR_def POLLHUP_def POLLNVAL_def)

section \<open>What Dial calls\<close>

text \<open>Calls that give a socket no address of either side.\<close>

fun quiet :: "syscall \<Rightarrow> bool" where
  "quiet (SysBind n sa) = False"
| "quiet (SysConnect n sa) = False"
| "quiet _ = True"

definition quietly :: "world \<Rightarrow> world \<Rightarrow> bool" where
  "quietly w w' \<longleftrightarrow> (\<exists>cs. trace w' = trace w @ cs \<and> list_all quiet cs)"

lemma quietly_refl [simp]: "quietly w w"
  by (simp add: quietly_def)

lemma quietly_trans: "quietly u v \<Longrightarrow> quietly v w \<Longrightarrow> quietly u w"
  by (auto simp: quietly_def)

lemma quietly_called: "quiet sc \<Longrightarrow> quietly w (called sc w)"
  by (simp add: quietly_def)

lemma quietly_step [simp]: "quiet sc \<Longrightarrow> quietly w v \<Longrightarrow> quietly w (called sc v)"
  by (auto simp: quietly_def)

lemma quietly_sys_call: "sys_call sc w = Some (a, w') \<Longrightarrow> quiet sc \<Longrightarrow> quietly w w'"
  by (auto simp: quietly_called dest!: sys_call_Some)

lemma quietly_pollFD: "pollFD m events w = Some (r, w') \<Longrightarrow> quietly w w'"
proof (induction "length (script w)" arbitrary: w rule: less_induct)
  case less
  from less.prems obtain a as where s: "script w = a # as"
    by (subst (asm) pollFD.simps) (auto split: list.splits)
  have call: "quietly w (called (SysPoll m events 100) w)"
    by simp
  from less.prems s less.hyps [of "called (SysPoll m events 100) w"] call show ?case
    by (subst (asm) pollFD.simps) (auto split: if_splits option.splits intro: quietly_trans [OF call])
qed

lemma quietly_fail_closed: "fail_closed n err w = Some (r, w') \<Longrightarrow> r = Inl err \<and> quietly w w'"
  by (auto simp: fail_closed_def split: Option.bind_splits dest: quietly_sys_call)

lemma quietly_set_buffers: "set_buffers n cfg w = Some (u, w') \<Longrightarrow> quietly w w'"
  by (auto simp: set_buffers_def quietly_def split: if_splits Option.bind_splits dest!: sys_call_Some)

lemma quietly_start_session:
  assumes "handshake_ok enable" and "start_session enable cfg n w = Some (r, w')"
  shows "quietly w w'"
proof (cases "TLS cfg")
  case True
  with assms(2) obtain e c v where hs: "enable cfg (newFDConn n, w) = Some (e, c, v)"
    by (auto simp: start_session_def Let_def split: Option.bind_splits)
  have fresh: "\<not> fd_closed (newFDConn n)" by (simp add: newFDConn_def)
  from assms(1) hs obtain k where "fd_use_step\<^sup>*\<^sup>* (idle_use k (newFDConn n) w) (idle_use k c v)"
    by (fastforce simp: handshake_ok_def conn_used_def)
  from fd_run_idle [OF this fresh] obtain cs where v: "trace v = trace w @ cs" "list_all (conn_call (fd (newFDConn n))) cs"
    by (auto simp: conn_calls_def)
  have "conn_call m sc \<Longrightarrow> quiet sc" for m sc by (cases sc) simp_all
  then have "quietly w v"
    using v by (auto simp: quietly_def list_all_iff)
  moreover have "fd_close c v = Some (x, w'') \<Longrightarrow> quietly v w''" for x w''
    by (auto simp: fd_close_def Let_def quietly_called split: if_splits list.splits)
  ultimately show ?thesis
    using assms(2) True hs
    by (auto simp: start_session_def Let_def split: option.splits Option.bind_splits intro: quietly_trans)
next
  case False
  with assms(2) show ?thesis
    by (auto simp: start_session_def Let_def)
qed

lemma quietly_await_connect:
  "await_connect n raddr w = Some (e, w') \<Longrightarrow> quietly (called (SysConnect n raddr) w) w'"
  by (auto simp: await_connect_def split: Option.bind_splits option.splits if_splits
      dest!: sys_call_Some quietly_pollFD)

lemma bind_local_calls:
  assumes "LocalIP cfg \<noteq> []" and "resolveSockAddr (kernel_pickIP (LocalIP cfg) ''0.0.0.0'') (LocalPort cfg) = Inr (family, laddr)"
    and "bind_local n cfg w = Some (e, w')"
  shows "quietly (called (SysBind n laddr) w) w' \<and> (e = None \<longrightarrow> w' = called (SysBind n laddr) w)"
  using assms by (auto simp: bind_local_def quietly_called split: Option.bind_splits option.splits dest!: sys_call_Some)

text \<open>
  The calls of a \<open>Dial\<close> with a local address: none that is not quiet, or the \<open>bind\<close> to that
  address and nothing more, or the \<open>bind\<close> directly followed by the \<open>connect\<close>.
\<close>

definition binds_before_connect :: "sockaddr \<Rightarrow> sockaddr \<Rightarrow> bool \<Rightarrow> syscall list \<Rightarrow> bool" where
  "binds_before_connect laddr raddr failed cs \<longleftrightarrow>
     (\<exists>A B n. list_all quiet A \<and> list_all quiet B
       \<and> (cs = A \<and> failed \<or> cs = A @ SysBind n laddr # B \<and> failed
          \<or> cs = A @ SysBind n laddr # SysConnect n raddr # B))"

lemma kernel_Dial_calls:
  assumes "handshake_ok enable" and "LocalIP cfg \<noteq> []"
    and "resolveSockAddr (kernel_pickIP (LocalIP cfg) ''0.0.0.0'') (LocalPort cfg) = Inr (family, laddr)"
    and "resolveSockAddr (RemoteIP cfg) (RemotePort cfg) = Inr (family', raddr)"
    and "kernel_Dial enable cfg w = Some (r, w')"
  shows "\<exists>cs. trace w' = trace w @ cs \<and> binds_before_connect laddr raddr (isl r) cs"
proof -
  note local = bind_local_calls [OF assms(2,3)]
  consider (quiet) "quietly w w'" "isl r"
    | (bind) n u where "quietly w u" "quietly (called (SysBind n laddr) u) w'" "isl r"
    | (connect) n u where "quietly w u" "quietly (called (SysConnect n raddr) (called (SysBind n laddr) u)) w'"
  proof (cases "RemoteIP cfg = [] \<or> RemotePort cfg = 0")
    case True
    with assms(5) quiet show thesis by (auto simp: kernel_Dial_def)
  next
    case False
    with assms(4,5) obtain a1 w1 where c1: "sys_call (SysSocket family') w = Some (a1, w1)"
      by (auto simp: kernel_Dial_def split: Option.bind_splits)
    then have q1: "quietly w w1" by (rule quietly_sys_call) simp
    let ?n = "int (a_val a1)"
    show thesis
    proof (cases "a_err a1")
      case (Some err)
      with False assms(4,5) c1 q1 quiet show thesis by (auto simp: kernel_Dial_def)
    next
      case None1: None
      with False assms(4,5) c1 obtain a2 w2 where c2: "sys_call (SysSetNonblock ?n) w1 = Some (a2, w2)"
        by (auto simp: kernel_Dial_def Let_def split: Option.bind_splits)
      have q2: "quietly w w2" by (rule quietly_trans [OF q1 quietly_sys_call [OF c2]]) simp
      show thesis
      proof (cases "a_err a2")
        case (Some err)
        with False assms(4,5) c1 None1 c2 have "fail_closed ?n (Wrapf ''set nonblock: %w'' (Errno err)) w2 = Some (r, w')"
          by (simp add: kernel_Dial_def Let_def)
        from quietly_fail_closed [OF this] quietly_trans [OF q2] quiet show thesis by auto
      next
        case None2: None
        with False assms(4,5) c1 None1 c2 obtain u3 w3 e w4 where c3: "set_buffers ?n cfg w2 = Some (u3, w3)"
          and c4: "bind_local ?n cfg w3 = Some (e, w4)"
          by (auto simp: kernel_Dial_def Let_def split: Option.bind_splits)
        have q3: "quietly w w3" by (rule quietly_trans [OF q2 quietly_set_buffers [OF c3]])
        note q4 = local [OF c4]
        show thesis
        proof (cases e)
          case (Some err)
          with False assms(4,5) c1 None1 c2 None2 c3 c4 q3 q4 bind show thesis
            by (auto simp: kernel_Dial_def Let_def)
        next
          case None3: None
          with False assms(4,5) c1 None1 c2 None2 c3 c4 obtain e2 w5 where c5: "await_connect ?n raddr w4 = Some (e2, w5)"
            and rest: "(case e2 of Some err \<Rightarrow> Some (Inl err, w5) | None \<Rightarrow> start_session enable cfg ?n w5) = Some (r, w')"
            by (auto simp: kernel_Dial_def Let_def split: Option.bind_splits)
          have "quietly w5 w'"
            using rest quietly_start_session [OF assms(1)] by (auto split: option.splits)
          with quietly_await_connect [OF c5] q4 None3
          have "quietly (called (SysConnect ?n raddr) (called (SysBind ?n laddr) w3)) w'"
            by (auto intro: quietly_trans)
          with q3 connect show thesis by blast
        qed
      qed
    qed
  qed
  then show ?thesis
  proof cases
    case quiet
    then show ?thesis by (fastforce simp: quietly_def binds_before_connect_def)
  next
    case bind
    then obtain A B where "trace u = trace w @ A" "list_all quiet A" "trace w' = trace u @ SysBind n laddr # B" "list_all quiet B"
      by (auto simp: quietly_def)
    with bind(3) show ?thesis
      by (intro exI [of _ "A @ SysBind n laddr # B"]) (auto simp: binds_before_connect_def)
  next
    case connect
    then obtain A B where "trace u = trace w @ A" "list_all quiet A"
      "trace w' = trace u @ SysBind n laddr # SysConnect n raddr # B" "list_all quiet B"
      by (auto simp: quietly_def)
    then show ?thesis
      by (intro exI [of _ "A @ SysBind n laddr # SysConnect n raddr # B"]) (auto simp: binds_before_connect_def)
  qed
qed

section \<open>Closing a session\<close>

text \<open>The second \<open>Close\<close> of a session makes no call and reports success.\<close>

lemma session_Close_again:
  "session_Close tls_close st = Some (e, s, w) \<Longrightarrow> session_Close tls_close (s, w) = Some (None, s, w)"
  by (auto simp: session_Close_def Let_def split: prod.splits if_splits Option.bind_splits)

end
