(* ===== verification/Kernel_Addr.thy ===== *)
theory Kernel_Addr
  imports Kernel_Socket
begin

text \<open>
  The text of the addresses of listeners and sessions (\<open>Addr\<close>, \<open>RemoteAddr\<close>,
  \<open>sockaddrString\<close> and \<open>sctpNetAddr\<close> of \<open>sctpkernel_linux.go\<close>), over Go's \<open>net.IP.String\<close> and
  \<open>net.TCPAddr.String\<close>. The answers of \<open>getsockname\<close> and \<open>getpeername\<close> are arguments.
\<close>

section \<open>Go's address text\<close>

definition hex_char :: "nat \<Rightarrow> char" where
  "hex_char d = (if d < 10 then digit_char d else char_of (87 + d))"

fun format_hex :: "nat \<Rightarrow> string" where
  "format_hex n = (if n < 16 then [hex_char n] else format_hex (n div 16) @ [hex_char (n mod 16)])"

declare format_hex.simps [simp del]

text \<open>The eight groups, and the first longest run of at least two zero groups as an interval.\<close>

fun pairs16 :: "bytes \<Rightarrow> nat list" where
  "pairs16 (a # b # bs) = (unat a * 256 + unat b) # pairs16 bs"
| "pairs16 _ = []"

definition zero_run :: "nat list \<Rightarrow> (nat \<times> nat) option" where
  "zero_run gs = foldl
     (\<lambda>best i.
        let l = length (takeWhile (\<lambda>g. g = 0) (drop i gs))
        in if 2 \<le> l \<and> (case best of None \<Rightarrow> True | Some (s, e) \<Rightarrow> e - s < l) then Some (i, i + l) else best)
     None [0..<length gs]"

definition join_colon :: "nat list \<Rightarrow> string" where
  "join_colon gs = (case map format_hex gs of [] \<Rightarrow> [] | s # ss \<Rightarrow> s @ concat (map (\<lambda>t. CHR '':'' # t) ss))"

definition ipv6_string :: "bytes \<Rightarrow> string" where
  "ipv6_string ip =
     (let gs = pairs16 ip
      in case zero_run gs of
           None \<Rightarrow> join_colon gs
         | Some (s, e) \<Rightarrow> join_colon (take s gs) @ ''::'' @ join_colon (drop e gs))"

text \<open>\<open>net.IP.String\<close> for addresses of 4 or 16 bytes.\<close>

definition ip_string :: "bytes \<Rightarrow> string" where
  "ip_string ip = (case To4 ip of Some q \<Rightarrow> dotted q | None \<Rightarrow> ipv6_string ip)"

text \<open>\<open>net.TCPAddr\<close> without a zone; the empty address prints as the bare port.\<close>

record tcp_addr =
  addr_IP :: bytes
  addr_Port :: int

definition tcp_addr_string :: "tcp_addr \<Rightarrow> string" where
  "tcp_addr_string a =
     (let h = (if addr_IP a = [] then [] else ip_string (addr_IP a))
      in if CHR '':'' \<in> set h then ''['' @ h @ '']:'' @ format_int (addr_Port a)
         else h @ '':'' @ format_int (addr_Port a))"

section \<open>The addresses of the transport\<close>

definition sockaddrString :: "sockaddr \<Rightarrow> string" where
  "sockaddrString sa =
     (case sa of
        Inet4 q port \<Rightarrow> ip_string q @ '':'' @ format_int port
      | Inet6 ip port \<Rightarrow> ''['' @ ip_string ip @ '']:'' @ format_int port
      | OtherAddr \<Rightarrow> [])"

definition sctpNetAddr :: "sockaddr \<Rightarrow> tcp_addr" where
  "sctpNetAddr sa =
     (case sa of
        Inet4 q port \<Rightarrow> \<lparr>addr_IP = q, addr_Port = port\<rparr>
      | Inet6 ip port \<Rightarrow> \<lparr>addr_IP = ip, addr_Port = port\<rparr>
      | OtherAddr \<Rightarrow> \<lparr>addr_IP = [], addr_Port = 0\<rparr>)"

text \<open>\<open>listener.Addr\<close>.\<close>

definition listener_Addr :: "go_error + sockaddr \<Rightarrow> string" where
  "listener_Addr getsockname = (case getsockname of Inl err \<Rightarrow> [] | Inr sa \<Rightarrow> sockaddrString sa)"

text \<open>
  \<open>fdConn.LocalAddr\<close> and \<open>fdConn.RemoteAddr\<close>: after an error an empty \<open>net.IPAddr\<close>, here
  \<open>None\<close>, whose text is empty.
\<close>

definition fd_addr :: "go_error + sockaddr \<Rightarrow> tcp_addr option" where
  "fd_addr name = (case name of Inl err \<Rightarrow> None | Inr sa \<Rightarrow> Some (sctpNetAddr sa))"

text \<open>
  \<open>session.RemoteAddr\<close>: asks the connection twice, once for the test against \<open>nil\<close>, which
  never holds, and once for the text. A TLS connection passes the question on.
\<close>

definition session_RemoteAddr :: "go_error + sockaddr \<Rightarrow> string" where
  "session_RemoteAddr getpeername = (case fd_addr getpeername of None \<Rightarrow> [] | Some a \<Rightarrow> tcp_addr_string a)"

section \<open>Addresses given and addresses shown\<close>

lemma dotted_no_colon: "CHR '':'' \<notin> set (dotted q)"
proof -
  have "CHR '':'' \<notin> set (format_nat n)" for n
  proof
    assume "CHR '':'' \<in> set (format_nat n)"
    then obtain d where d: "d < 10" "CHR '':'' = digit_char d"
      using format_nat_digits by blast
    then have "(of_char (CHR '':'') :: nat) = of_char (digit_char d)" by (simp only:)
    with d(1) show False by simp
  qed
  then show ?thesis by (simp add: dotted_def)
qed

lemma ip_string_4: "length q = 4 \<Longrightarrow> ip_string q = dotted q"
  by (simp add: ip_string_def To4_def)

text \<open>C36: IPv4 addresses survive the way in and out. The text that a listener or a session shows
  for an IPv4 socket is the dotted quad, a colon and the port; cut at the colon it resolves,
  through \<open>Listen\<close>'s and \<open>Dial\<close>'s own address parser, to exactly the address it came from, so
  the address an AMF prints can be given to a gNB. Listener and session show the same text.\<close>

theorem address_roundtrip:
  assumes "length q = 4"
  shows "listener_Addr (Inr (Inet4 q port)) = session_RemoteAddr (Inr (Inet4 q port))
    \<and> resolveSockAddr (takeWhile (\<lambda>c. c \<noteq> CHR '':'') (listener_Addr (Inr (Inet4 q port))))
        (parse_int (tl (dropWhile (\<lambda>c. c \<noteq> CHR '':'') (listener_Addr (Inr (Inet4 q port))))))
      = Inr (AF_INET, Inet4 q port)"
proof -
  have shown: "listener_Addr (Inr (Inet4 q port)) = dotted q @ CHR '':'' # format_int port"
    by (simp add: listener_Addr_def sockaddrString_def ip_string_4 assms)
  have "takeWhile (\<lambda>c. c \<noteq> CHR '':'') (dotted q @ CHR '':'' # format_int port) = dotted q"
    "dropWhile (\<lambda>c. c \<noteq> CHR '':'') (dotted q @ CHR '':'' # format_int port) = CHR '':'' # format_int port"
    using dotted_no_colon [of q] by (auto simp: takeWhile_append dropWhile_append)
  moreover have "q \<noteq> []" using assms by auto
  ultimately show ?thesis
    using assms dotted_no_colon [of q]
    by (simp add: shown resolveSockAddr_def ParseIP_dotted To4_mapped parse_format_int session_RemoteAddr_def
        fd_addr_def sctpNetAddr_def tcp_addr_string_def ip_string_4 Let_def)
qed

theorem address_roundtrip_witness:
  "resolveSockAddr (takeWhile (\<lambda>c. c \<noteq> CHR '':'') (listener_Addr (Inr (Inet4 [127, 0, 0, 1] 38412))))
     (parse_int (tl (dropWhile (\<lambda>c. c \<noteq> CHR '':'') (listener_Addr (Inr (Inet4 [127, 0, 0, 1] 38412))))))
   = Inr (AF_INET, Inet4 [127, 0, 0, 1] 38412)"
  by (rule conjunct2 [OF address_roundtrip [of "[127, 0, 0, 1]" 38412]]) simp

end
