(* ===== verification/Sctp.thy ===== *)
theory Sctp
  imports Tls Channel
begin

text \<open>
  The transport over the SCTP library (\<open>pkg/transport/sctp/sctp.go\<close>). The library
  \<open>ishidawataru/sctp\<close> is not part of the repository: what the code calls of it is the record
  \<open>isctp\<close>, over a state \<open>'s\<close> that holds everything the library and the peer keep. The TLS
  connection over it is an argument as well.
\<close>

section \<open>The library\<close>

record ('s, 'addr, 'ln, 'conn) isctp =
  ResolveSCTPAddr :: "string \<Rightarrow> go_error + 'addr"
  ListenSCTP :: "'addr \<Rightarrow> 's \<Rightarrow> (go_error + 'ln) \<times> 's"
  AcceptSCTP :: "'ln \<Rightarrow> 's \<Rightarrow> ((go_error + 'conn) \<times> 's) option"
  DialSCTP :: "'addr option \<Rightarrow> 'addr \<Rightarrow> 's \<Rightarrow> ((go_error + 'conn) \<times> 's) option"
  SetReadBuffer :: "'conn \<Rightarrow> int \<Rightarrow> 's \<Rightarrow> 's"
  SetWriteBuffer :: "'conn \<Rightarrow> int \<Rightarrow> 's \<Rightarrow> 's"
  CloseConn :: "'conn \<Rightarrow> 's \<Rightarrow> go_error option \<times> 's"
  CloseSCTPListener :: "'ln \<Rightarrow> 's \<Rightarrow> go_error option \<times> 's"

text \<open>A TLS handshake over a connection, as the server or as the client.\<close>

type_synonym ('s, 'conn, 'cert, 'pool) sctp_handshake =
  "bool \<Rightarrow> ('cert, 'pool) tls_config \<Rightarrow> int option \<Rightarrow> 'conn \<Rightarrow> 's \<Rightarrow> (go_error option \<times> 's) option"

section \<open>Listeners and sessions\<close>

record 'ln sctp_listener =
  sl_ln :: 'ln
  sl_cfg :: config

text \<open>\<open>ss_tls\<close>: the session's \<open>rw\<close> is the TLS connection over \<open>conn\<close>.\<close>

record 'conn sctp_session =
  ss_cfg :: config
  ss_conn :: 'conn
  ss_tls :: bool
  ss_closed :: bool

definition host_port :: "string \<Rightarrow> int \<Rightarrow> string" where
  "host_port ip port = ip @ '':'' @ format_int port"

definition sctp_Listen :: "('s, 'addr, 'ln, 'conn) isctp \<Rightarrow> config \<Rightarrow> 's \<Rightarrow> (go_error + 'ln sctp_listener) \<times> 's" where
  "sctp_Listen lib cfg s =
     (case ResolveSCTPAddr lib (host_port (LocalIP cfg) (LocalPort cfg)) of
        Inl err \<Rightarrow> (Inl (Wrapf ''resolve sctp listen addr: %w'' err), s)
      | Inr addr \<Rightarrow>
          (case ListenSCTP lib addr s of
             (Inl err, s) \<Rightarrow> (Inl (Wrapf ''listen sctp: %w'' err), s)
           | (Inr l, s) \<Rightarrow> (Inr \<lparr>sl_ln = l, sl_cfg = cfg\<rparr>, s)))"

definition applyTunables :: "('s, 'addr, 'ln, 'conn) isctp \<Rightarrow> config \<Rightarrow> 'conn \<Rightarrow> 's \<Rightarrow> 's" where
  "applyTunables lib cfg c s =
     (let s = (if 0 < ReadBuffer cfg then SetReadBuffer lib c (ReadBuffer cfg) s else s)
      in if 0 < WriteBuffer cfg then SetWriteBuffer lib c (WriteBuffer cfg) s else s)"

definition sctp_handshakeWithContext :: "('s, 'conn, 'cert, 'pool) sctp_handshake \<Rightarrow> bool \<Rightarrow>
    ('cert, 'pool) tls_config \<Rightarrow> int option \<Rightarrow> int \<Rightarrow> int \<Rightarrow> 'conn \<Rightarrow> 's \<Rightarrow> (go_error option \<times> 's) option" where
  "sctp_handshakeWithContext hs server tls dl now timeout c s =
     hs server tls (if 0 < timeout then with_timeout dl now timeout else dl) c s"

definition sctp_enableServerTLS :: "('key, 'cert, 'pool) tls_env \<Rightarrow> ('s, 'conn, 'cert, 'pool) sctp_handshake \<Rightarrow>
    int option \<Rightarrow> int \<Rightarrow> config \<Rightarrow> 'conn \<Rightarrow> 's \<Rightarrow> (go_error option \<times> 's) option" where
  "sctp_enableServerTLS env hs dl now cfg c s =
     (case sctpServerTLSConfig env cfg of
        Inl err \<Rightarrow> Some (Some err, s)
      | Inr tls \<Rightarrow>
          map_option (\<lambda>(e, s). (map_option (Wrapf ''sctp tls server handshake: %w'') e, s))
            (sctp_handshakeWithContext hs True tls dl now (ConnectTimeout cfg) c s))"

definition sctp_enableClientTLS :: "('key, 'cert, 'pool) tls_env \<Rightarrow> ('s, 'conn, 'cert, 'pool) sctp_handshake \<Rightarrow>
    int option \<Rightarrow> int \<Rightarrow> config \<Rightarrow> 'conn \<Rightarrow> 's \<Rightarrow> (go_error option \<times> 's) option" where
  "sctp_enableClientTLS env hs dl now cfg c s =
     (case sctpClientTLSConfig env cfg of
        Inl err \<Rightarrow> Some (Some err, s)
      | Inr tls \<Rightarrow>
          map_option (\<lambda>(e, s). (map_option (Wrapf ''sctp tls client handshake: %w'') e, s))
            (sctp_handshakeWithContext hs False tls dl now (ConnectTimeout cfg) c s))"

text \<open>The end of \<open>Accept\<close> and of \<open>Dial\<close>, with the \<open>enable\<close> function of the side.\<close>

definition sctp_start_session :: "('s, 'addr, 'ln, 'conn) isctp \<Rightarrow>
    (config \<Rightarrow> 'conn \<Rightarrow> 's \<Rightarrow> (go_error option \<times> 's) option) \<Rightarrow> config \<Rightarrow> 'conn \<Rightarrow> 's \<Rightarrow>
    ((go_error + 'conn sctp_session) \<times> 's) option" where
  "sctp_start_session lib enable cfg c s =
     (let s = applyTunables lib cfg c s
      in if TLS cfg then
           (case enable cfg c s of
              None \<Rightarrow> None
            | Some (Some err, s) \<Rightarrow> Some (Inl err, snd (CloseConn lib c s))
            | Some (None, s) \<Rightarrow> Some (Inr \<lparr>ss_cfg = cfg, ss_conn = c, ss_tls = True, ss_closed = False\<rparr>, s))
         else Some (Inr \<lparr>ss_cfg = cfg, ss_conn = c, ss_tls = False, ss_closed = False\<rparr>, s))"

text \<open>
  \<open>Accept\<close> and \<open>Dial\<close> run the blocking call of the library in a goroutine and select between
  its result and the end of the context. \<open>ended\<close> is the error of the context when the
  \<open>select\<close> takes that branch: the goroutine is left behind, and nobody looks at its result. The
  flag beside the error says whether the call of the goroutine has returned: then the library
  has done what it does, and a connection it has obtained stays open for ever; otherwise the
  call still waits.
\<close>

definition abandoned :: "('s \<Rightarrow> ('r \<times> 's) option) \<Rightarrow> bool \<Rightarrow> 's \<Rightarrow> 's" where
  "abandoned call returned s =
     (if returned then case call s of None \<Rightarrow> s | Some (_, s) \<Rightarrow> s else s)"

definition sctp_Accept :: "('s, 'addr, 'ln, 'conn) isctp \<Rightarrow>
    (config \<Rightarrow> 'conn \<Rightarrow> 's \<Rightarrow> (go_error option \<times> 's) option) \<Rightarrow> (go_error \<times> bool) option \<Rightarrow> 'ln sctp_listener \<Rightarrow> 's \<Rightarrow>
    ((go_error + 'conn sctp_session) \<times> 's) option" where
  "sctp_Accept lib enable ended l s =
     (case ended of
        Some (err, returned) \<Rightarrow> Some (Inl err, abandoned (AcceptSCTP lib (sl_ln l)) returned s)
      | None \<Rightarrow>
          (case AcceptSCTP lib (sl_ln l) s of
             None \<Rightarrow> None
           | Some (Inl err, s) \<Rightarrow> Some (Inl err, s)
           | Some (Inr c, s) \<Rightarrow> sctp_start_session lib enable (sl_cfg l) c s))"

definition resolveOptional :: "('s, 'addr, 'ln, 'conn) isctp \<Rightarrow> string \<Rightarrow> int \<Rightarrow> go_error + 'addr option" where
  "resolveOptional lib ip port =
     (if ip = [] \<and> port = 0 then Inr None
      else case ResolveSCTPAddr lib (host_port ip port) of Inl err \<Rightarrow> Inl err | Inr a \<Rightarrow> Inr (Some a))"

definition sctp_Dial :: "('s, 'addr, 'ln, 'conn) isctp \<Rightarrow>
    (config \<Rightarrow> 'conn \<Rightarrow> 's \<Rightarrow> (go_error option \<times> 's) option) \<Rightarrow> (go_error \<times> bool) option \<Rightarrow> config \<Rightarrow> 's \<Rightarrow>
    ((go_error + 'conn sctp_session) \<times> 's) option" where
  "sctp_Dial lib enable ended cfg s =
     (case resolveOptional lib (LocalIP cfg) (LocalPort cfg) of
        Inl err \<Rightarrow> Some (Inl err, s)
      | Inr laddr \<Rightarrow>
          (case ResolveSCTPAddr lib (host_port (RemoteIP cfg) (RemotePort cfg)) of
             Inl err \<Rightarrow> Some (Inl (Wrapf ''resolve sctp remote addr: %w'' err), s)
           | Inr raddr \<Rightarrow>
               (case ended of
                  Some (err, returned) \<Rightarrow> Some (Inl err, abandoned (DialSCTP lib laddr raddr) returned s)
                | None \<Rightarrow>
                    (case DialSCTP lib laddr raddr s of
                       None \<Rightarrow> None
                     | Some (Inl err, s) \<Rightarrow> Some (Inl (Wrapf ''dial sctp: %w'' err), s)
                     | Some (Inr c, s) \<Rightarrow> sctp_start_session lib enable cfg c s))))"

text \<open>\<open>tls_close\<close> is \<open>tls.Conn.Close\<close> over the connection.\<close>

definition sctp_session_Close :: "('s, 'addr, 'ln, 'conn) isctp \<Rightarrow> ('conn \<Rightarrow> 's \<Rightarrow> go_error option \<times> 's) \<Rightarrow>
    'conn sctp_session \<Rightarrow> 's \<Rightarrow> go_error option \<times> 'conn sctp_session \<times> 's" where
  "sctp_session_Close lib tls_close ss s =
     (if ss_closed ss then (None, ss, s)
      else
        let ss = ss\<lparr>ss_closed := True\<rparr>;
            (e, s) = (if ss_tls ss then tls_close (ss_conn ss) s else CloseConn lib (ss_conn ss) s)
        in (e, ss, s))"

definition sctp_listener_Close :: "('s, 'addr, 'ln, 'conn) isctp \<Rightarrow> 'ln sctp_listener \<Rightarrow> 's \<Rightarrow> go_error option \<times> 's" where
  "sctp_listener_Close lib l s = CloseSCTPListener lib (sl_ln l) s"

text \<open>The text of an address that may be missing: \<open>listener.Addr\<close> and \<open>session.RemoteAddr\<close>.\<close>

definition addr_text :: "string option \<Rightarrow> string" where
  "addr_text a = (case a of None \<Rightarrow> [] | Some t \<Rightarrow> t)"

section \<open>Channels\<close>

definition sctp_chan_error :: "go_error \<Rightarrow> go_error" where
  "sctp_chan_error err = (if asserts_timeout err then DeadlineExceeded else err)"

text \<open>One \<open>Write\<close>; the number of bytes written is ignored.\<close>

definition sctp_send :: "'s net_conn \<Rightarrow> int option \<Rightarrow> bytes \<Rightarrow> 's \<Rightarrow> (go_error option \<times> 's) option" where
  "sctp_send nc dl payload s =
     (case conn_write nc payload (conn_set_write_deadline nc (ctx_deadline dl) s) of
        None \<Rightarrow> None
      | Some ((n, err), s) \<Rightarrow> Some (map_option sctp_chan_error err, s))"

text \<open>One \<open>Read\<close> into a buffer of 64 KiB; whatever it returns is the message.\<close>

definition recv_buffer :: nat where
  "recv_buffer = 64 * 1024"

definition sctp_recv :: "'s net_conn \<Rightarrow> int option \<Rightarrow> 's \<Rightarrow> ((go_error + bytes) \<times> 's) option" where
  "sctp_recv nc dl s =
     (case conn_read nc recv_buffer (conn_set_read_deadline nc (ctx_deadline dl) s) of
        None \<Rightarrow> None
      | Some ((bs, Some err), s) \<Rightarrow> Some (Inl (sctp_chan_error err), s)
      | Some ((bs, None), s) \<Rightarrow> Some (Inr bs, s))"

text \<open>
  \<open>OpenChannel\<close> and \<open>AcceptChannel\<close> give a handle on the session's connection, so closing a
  channel does nothing.
\<close>

definition sctp_channel :: "'s net_conn \<Rightarrow> u16 \<Rightarrow> 's channel" where
  "sctp_channel nc n = \<lparr>ch_ID = n, ch_Send = sctp_send nc, ch_Recv = sctp_recv nc\<rparr>"

definition sctp_channel_Close :: "'s channel \<Rightarrow> 's \<Rightarrow> go_error option \<times> 's" where
  "sctp_channel_Close ch s = (None, s)"

section \<open>Properties\<close>

text \<open>C21: The library transport delivers what one \<open>Read\<close> returns as a message. If the connection
  hands over a front part of an encoded frame, \<open>Recv\<close> succeeds with that part, and it is a
  frame only if nothing is missing; otherwise the receiver gets bytes that \<open>Decode\<close> rejects
  and counts a corrupt message where nothing was lost. So a byte stream such as a TLS
  connection, which may cut anywhere, breaks the channel, and even over a connection that
  keeps messages whole the 64 KiB buffer admits payloads of at most 65510 bytes, although
  \<open>Encode\<close> allows 65535.\<close>

theorem sctp_single_read:
  assumes "frame_encode f = Inr m" and "m = bs @ rest"
    and "conn_read nc recv_buffer (conn_set_read_deadline nc (ctx_deadline dl) s) = Some ((bs, None), s')"
    and "length bs \<le> recv_buffer"
  shows "sctp_recv nc dl s = Some (Inr bs, s')
    \<and> (frame_decode bs = Inr f \<longleftrightarrow> rest = [])
    \<and> (rest \<noteq> [] \<longrightarrow> (\<exists>err. frame_decode bs = Inl err))
    \<and> (65510 < length (Payload f) \<longrightarrow> rest \<noteq> [])"
proof (intro conjI)
  show "sctp_recv nc dl s = Some (Inr bs, s')"
    using assms(3) by (simp add: sctp_recv_def)
  have whole: "frame_decode m = Inr f"
    using assms(1) by (rule frame_decode_encode [of f m "[]", simplified])
  have cut: "\<exists>err. frame_decode bs = Inl err" if "rest \<noteq> []"
    using frame_decode_truncated [OF assms(1), of "length bs"] that assms(2) by simp
  show "frame_decode bs = Inr f \<longleftrightarrow> rest = []"
    using whole cut assms(2) by fastforce
  show "rest \<noteq> [] \<longrightarrow> (\<exists>err. frame_decode bs = Inl err)"
    using cut by blast
  show "65510 < length (Payload f) \<longrightarrow> rest \<noteq> []"
    using assms(1,2,4) by (auto simp: frame_encode_Inr_iff recv_buffer_def)
qed

text \<open>A TLS connection that hands over the first 27 bytes of a frame of 28.\<close>

definition cut_conn :: "nat \<Rightarrow> bytes net_conn" where
  "cut_conn k = \<lparr>conn_read = \<lambda>n s. Some ((take (min k n) s, None), drop (min k n) s),
     conn_write = \<lambda>b s. Some ((length b, None), s),
     conn_set_read_deadline = \<lambda>t s. s, conn_set_write_deadline = \<lambda>t s. s\<rparr>"

theorem sctp_single_read_witness:
  "\<exists>bs s'. sctp_recv (cut_conn 27) None
      (frame_header \<lparr>MsgType = 2, SeqID = 5, SendTSNS = 0, ChannelID = 0, Payload = [7, 8]\<rparr> 2 @ [7, 8]) = Some (Inr bs, s')
    \<and> (\<exists>err. frame_decode bs = Inl err)"
proof -
  let ?f = "\<lparr>MsgType = 2, SeqID = 5, SendTSNS = 0, ChannelID = 0, Payload = [7, 8]\<rparr>"
  let ?h = "frame_header ?f 2"
  have "frame_encode ?f = Inr (?h @ [7, 8])"
    by (simp add: frame_encode_layout encodable_def numeral_2_eq_2)
  from sctp_single_read [OF this, of "?h @ [7]" "[8]" "cut_conn 27" None "?h @ [7, 8]" "[8]"]
  show ?thesis
    by (auto simp: cut_conn_def recv_buffer_def)
qed

end
