(* ===== verification/Quic_Session.thy ===== *)
theory Quic_Session
  imports Tls Quic
begin

text \<open>
  Listeners and sessions of the QUIC transport (\<open>pkg/transport/quic/quic.go\<close>) over the package
  \<open>quic-go\<close>, whose calls are the record \<open>quic_lib\<close> over a state \<open>'s\<close>.
\<close>

section \<open>The package\<close>

text \<open>\<open>quic.Config\<close>; fields that the code does not set have their zero values.\<close>

record quic_config =
  EnableDatagrams :: bool
  DisablePathMTUDiscovery :: bool
  HandshakeIdleTimeout :: int
  InitialStreamReceiveWindow :: nat
  MaxStreamReceiveWindow :: nat
  InitialConnectionReceiveWindow :: nat
  MaxConnectionReceiveWindow :: nat
  MaxIncomingUniStreams :: int
  KeepAlivePeriod :: int
  MaxIncomingStreams :: int

record ('s, 'cert, 'pool, 'ln, 'conn, 'st) quic_lib =
  ListenAddr :: "string \<Rightarrow> ('cert, 'pool) tls_config \<Rightarrow> quic_config \<Rightarrow> 's \<Rightarrow> (go_error + 'ln) \<times> 's"
  DialAddr :: "int option \<Rightarrow> string \<Rightarrow> ('cert, 'pool) tls_config \<Rightarrow> quic_config \<Rightarrow> 's \<Rightarrow> ((go_error + 'conn) \<times> 's) option"
  AcceptConn :: "int option \<Rightarrow> 'ln \<Rightarrow> 's \<Rightarrow> ((go_error + 'conn) \<times> 's) option"
  OpenStreamSync :: "int option \<Rightarrow> 'conn \<Rightarrow> 's \<Rightarrow> ((go_error + 'st) \<times> 's) option"
  AcceptStream :: "int option \<Rightarrow> 'conn \<Rightarrow> 's \<Rightarrow> ((go_error + 'st) \<times> 's) option"
  StreamID :: "'st \<Rightarrow> u64"
  StreamOps :: "'st \<Rightarrow> 's stream"
  CloseWithError :: "'conn \<Rightarrow> nat \<Rightarrow> string \<Rightarrow> 's \<Rightarrow> 's"
  CloseListener :: "'ln \<Rightarrow> 's \<Rightarrow> go_error option \<times> 's"
  CloseStream :: "'st \<Rightarrow> 's \<Rightarrow> go_error option \<times> 's"

section \<open>The operations\<close>

text \<open>\<open>time.Duration(ms) * time.Millisecond\<close> and \<open>cfg.ChannelCount * 4\<close> wrap around.\<close>

definition quicConfig :: "config \<Rightarrow> quic_config" where
  "quicConfig cfg =
     (let qcfg = \<lparr>EnableDatagrams = False, DisablePathMTUDiscovery = True,
            HandshakeIdleTimeout = 3 * 1000000000, InitialStreamReceiveWindow = 64 * 1024,
            MaxStreamReceiveWindow = 256 * 1024, InitialConnectionReceiveWindow = 256 * 1024,
            MaxConnectionReceiveWindow = 1024 * 1024, MaxIncomingUniStreams = - 1,
            KeepAlivePeriod = 0, MaxIncomingStreams = 0\<rparr>;
          qcfg = (if 0 < HeartbeatMS cfg
            then qcfg\<lparr>KeepAlivePeriod := go_int (HeartbeatMS cfg * 1000000)\<rparr> else qcfg)
      in if 0 < ChannelCount cfg
         then qcfg\<lparr>MaxIncomingStreams := go_int (ChannelCount cfg * 4)\<rparr> else qcfg)"

definition quic_Listen :: "('s, 'cert, 'pool, 'ln, 'conn, 'st) quic_lib \<Rightarrow> ('key, 'cert, 'pool) tls_env \<Rightarrow>
    config \<Rightarrow> 's \<Rightarrow> (go_error + 'ln) \<times> 's" where
  "quic_Listen lib env cfg s =
     (let addr = quic_pickIP (LocalIP cfg) ''0.0.0.0'' @ '':'' @ format_int (LocalPort cfg)
      in case quic_serverTLSConfig env cfg of
           Inl err \<Rightarrow> (Inl err, s)
         | Inr tlsCfg \<Rightarrow>
             (case ListenAddr lib addr tlsCfg (quicConfig cfg) s of
                (Inl err, s) \<Rightarrow> (Inl (Wrapf ''listen quic: %w'' err), s)
              | (Inr l, s) \<Rightarrow> (Inr l, s)))"

text \<open>\<open>qs_done\<close>: the session's \<open>sync.Once\<close> has been used.\<close>

record 'conn quic_session =
  qs_conn :: 'conn
  qs_done :: bool

definition quic_Dial :: "('s, 'cert, 'pool, 'ln, 'conn, 'st) quic_lib \<Rightarrow> ('key, 'cert, 'pool) tls_env \<Rightarrow>
    int option \<Rightarrow> config \<Rightarrow> 's \<Rightarrow> ((go_error + 'conn quic_session) \<times> 's) option" where
  "quic_Dial lib env dl cfg s =
     (if RemoteIP cfg = [] \<or> RemotePort cfg = 0
      then Some (Inl (Errorf ''remote_ip and remote_port are required for quic dial'' [] []), s)
      else
        let addr = RemoteIP cfg @ '':'' @ format_int (RemotePort cfg)
        in case quic_clientTLSConfig env cfg of
             Inl err \<Rightarrow> Some (Inl err, s)
           | Inr tlsCfg \<Rightarrow>
               (case DialAddr lib dl addr tlsCfg (quicConfig cfg) s of
                  None \<Rightarrow> None
                | Some (Inl err, s) \<Rightarrow> Some (Inl (Wrapf ''dial quic: %w'' err), s)
                | Some (Inr c, s) \<Rightarrow> Some (Inr \<lparr>qs_conn = c, qs_done = False\<rparr>, s)))"

definition quic_Accept :: "('s, 'cert, 'pool, 'ln, 'conn, 'st) quic_lib \<Rightarrow> int option \<Rightarrow> 'ln \<Rightarrow> 's \<Rightarrow>
    ((go_error + 'conn quic_session) \<times> 's) option" where
  "quic_Accept lib dl l s =
     (case AcceptConn lib dl l s of
        None \<Rightarrow> None
      | Some (Inl err, s) \<Rightarrow> Some (Inl err, s)
      | Some (Inr c, s) \<Rightarrow> Some (Inr \<lparr>qs_conn = c, qs_done = False\<rparr>, s))"

definition quic_OpenChannel :: "('s, 'cert, 'pool, 'ln, 'conn, 'st) quic_lib \<Rightarrow> int option \<Rightarrow> 'conn quic_session \<Rightarrow>
    u16 \<Rightarrow> 's \<Rightarrow> ((go_error + 's channel) \<times> 's) option" where
  "quic_OpenChannel lib dl sess n s =
     (case OpenStreamSync lib dl (qs_conn sess) s of
        None \<Rightarrow> None
      | Some (Inl err, s) \<Rightarrow> Some (Inl err, s)
      | Some (Inr st, s) \<Rightarrow> Some (Inr (quic_channel (StreamOps lib st) n), s))"

definition quic_AcceptChannel :: "('s, 'cert, 'pool, 'ln, 'conn, 'st) quic_lib \<Rightarrow> int option \<Rightarrow> 'conn quic_session \<Rightarrow>
    's \<Rightarrow> ((go_error + 's channel) \<times> 's) option" where
  "quic_AcceptChannel lib dl sess s =
     (case AcceptStream lib dl (qs_conn sess) s of
        None \<Rightarrow> None
      | Some (Inl err, s) \<Rightarrow> Some (Inl err, s)
      | Some (Inr st, s) \<Rightarrow>
          let chID = ucast (StreamID lib st) :: u16
          in Some (Inr (quic_channel (StreamOps lib st) chID), s))"

definition quic_session_Close :: "('s, 'cert, 'pool, 'ln, 'conn, 'st) quic_lib \<Rightarrow> 'conn quic_session \<Rightarrow> 's \<Rightarrow>
    go_error option \<times> 'conn quic_session \<times> 's" where
  "quic_session_Close lib sess s =
     (if qs_done sess then (None, sess, s)
      else (None, sess\<lparr>qs_done := True\<rparr>, CloseWithError lib (qs_conn sess) 0 [] s))"

definition quic_listener_Close :: "('s, 'cert, 'pool, 'ln, 'conn, 'st) quic_lib \<Rightarrow> 'ln \<Rightarrow> 's \<Rightarrow> go_error option \<times> 's" where
  "quic_listener_Close lib l s = CloseListener lib l s"

text \<open>\<open>Close\<close> of a channel closes the sending direction of its stream.\<close>

definition quic_channel_Close :: "('s, 'cert, 'pool, 'ln, 'conn, 'st) quic_lib \<Rightarrow> 'st \<Rightarrow> 's \<Rightarrow> go_error option \<times> 's" where
  "quic_channel_Close lib st s = CloseStream lib st s"

text \<open>\<open>listener.Addr\<close> and \<open>session.RemoteAddr\<close>: a missing address has no text.\<close>

definition quic_addr_text :: "string option \<Rightarrow> string" where
  "quic_addr_text a = (case a of None \<Rightarrow> [] | Some t \<Rightarrow> t)"

section \<open>Lemmas\<close>

text \<open>For heartbeats of up to 292 years and sane channel counts nothing wraps around.\<close>

lemma quicConfig_limits:
  assumes "0 < ChannelCount cfg" and "ChannelCount cfg \<le> 2 ^ 61 - 1"
    and "0 < HeartbeatMS cfg" and "HeartbeatMS cfg \<le> 9223372036854"
  shows "MaxIncomingStreams (quicConfig cfg) = 4 * ChannelCount cfg
    \<and> KeepAlivePeriod (quicConfig cfg) = 1000000 * HeartbeatMS cfg"
proof -
  have "in_int64 (ChannelCount cfg * 4)" "in_int64 (HeartbeatMS cfg * 1000000)"
    using assms by (simp_all add: in_int64_def min_int64_def max_int64_def)
  with assms show ?thesis
    by (simp add: quicConfig_def Let_def go_int_id)
qed

lemma quic_session_Close_again:
  "quic_session_Close lib sess s = (e, sess', s') \<Longrightarrow> quic_session_Close lib sess' s' = (None, sess', s')"
  by (auto simp: quic_session_Close_def split: if_splits)

end
