(* ===== verification/Backend.thy ===== *)
theory Backend
  imports Kernel_Socket Sctp Quic_Session
begin

text \<open>
  \<open>pkg/transport/backend/backend.go\<close>: the choice of the transport. The three transports work on
  different parts of the environment, which is a triple: the state of the SCTP library, the
  kernel's \<open>world\<close>, and the state of the QUIC package.
\<close>

datatype ('a, 'b, 'c) via = ViaSCTP (via_sctp: 'a) | ViaKernel (via_kernel: 'b) | ViaQUIC (via_quic: 'c)

text \<open>An operation on one part of the environment as an operation on the whole.\<close>

definition on_sctp :: "('s \<Rightarrow> ((go_error + 'a) \<times> 's) option) \<Rightarrow> 's \<times> world \<times> 'q \<Rightarrow>
    ((go_error + ('a, 'b, 'c) via) \<times> 's \<times> world \<times> 'q) option" where
  "on_sctp f e = (case e of (s, w, q) \<Rightarrow> map_option (\<lambda>(r, s). (map_sum (\<lambda>x. x) ViaSCTP r, s, w, q)) (f s))"

definition on_kernel :: "(world \<Rightarrow> ((go_error + 'b) \<times> world) option) \<Rightarrow> 's \<times> world \<times> 'q \<Rightarrow>
    ((go_error + ('a, 'b, 'c) via) \<times> 's \<times> world \<times> 'q) option" where
  "on_kernel f e = (case e of (s, w, q) \<Rightarrow> map_option (\<lambda>(r, w). (map_sum (\<lambda>x. x) ViaKernel r, s, w, q)) (f w))"

definition on_quic :: "('q \<Rightarrow> ((go_error + 'c) \<times> 'q) option) \<Rightarrow> 's \<times> world \<times> 'q \<Rightarrow>
    ((go_error + ('a, 'b, 'c) via) \<times> 's \<times> world \<times> 'q) option" where
  "on_quic f e = (case e of (s, w, q) \<Rightarrow> map_option (\<lambda>(r, q). (map_sum (\<lambda>x. x) ViaQUIC r, s, w, q)) (f q))"

definition unknown_transport :: "string \<Rightarrow> go_error" where
  "unknown_transport t = Errorf ''unknown transport type %q'' [] [t]"

text \<open>The packages that the transports call.\<close>

record ('s, 'q, 'addr, 'sln, 'sconn, 'qln, 'qconn, 'st, 'key, 'cert, 'pool) packages =
  p_env :: "('key, 'cert, 'pool) tls_env"
  p_sctp :: "('s, 'addr, 'sln, 'sconn) isctp"
  p_sctp_hs :: "('s, 'sconn, 'cert, 'pool) sctp_handshake"
  p_kernel_hs :: "('cert, 'pool) handshake"
  p_quic :: "('q, 'cert, 'pool, 'qln, 'qconn, 'st) quic_lib"

definition backend_Listen :: "('s, 'q, 'addr, 'sln, 'sconn, 'qln, 'qconn, 'st, 'key, 'cert, 'pool) packages \<Rightarrow>
    config \<Rightarrow> 's \<times> world \<times> 'q \<Rightarrow> ((go_error + ('sln sctp_listener, klistener, 'qln) via) \<times> 's \<times> world \<times> 'q) option" where
  "backend_Listen p cfg e =
     (if TransportType cfg = TypeSCTP then on_sctp (\<lambda>s. Some (sctp_Listen (p_sctp p) cfg s)) e
      else if TransportType cfg = TypeSCTPKernel then on_kernel (kernel_Listen cfg) e
      else if TransportType cfg = TypeQUIC then on_quic (\<lambda>q. Some (quic_Listen (p_quic p) (p_env p) cfg q)) e
      else Some (Inl (unknown_transport (TransportType cfg)), e))"

text \<open>
  \<open>dl\<close> is the deadline of the context, \<open>ended\<close> its error if it ends during the call (with the
  flag of \<open>abandoned\<close>),
  \<open>now\<close> is the time at which a handshake starts.
\<close>

definition backend_Dial :: "('s, 'q, 'addr, 'sln, 'sconn, 'qln, 'qconn, 'st, 'key, 'cert, 'pool) packages \<Rightarrow>
    int option \<Rightarrow> (go_error \<times> bool) option \<Rightarrow> int \<Rightarrow> config \<Rightarrow> 's \<times> world \<times> 'q \<Rightarrow>
    ((go_error + ('sconn sctp_session, ksession, 'qconn quic_session) via) \<times> 's \<times> world \<times> 'q) option" where
  "backend_Dial p dl ended now cfg e =
     (if TransportType cfg = TypeSCTP
      then on_sctp (sctp_Dial (p_sctp p) (sctp_enableClientTLS (p_env p) (p_sctp_hs p) dl now) ended cfg) e
      else if TransportType cfg = TypeSCTPKernel
      then on_kernel (kernel_Dial (enableClientTLS (p_env p) (p_kernel_hs p) dl now) cfg) e
      else if TransportType cfg = TypeQUIC then on_quic (quic_Dial (p_quic p) (p_env p) dl cfg) e
      else Some (Inl (unknown_transport (TransportType cfg)), e))"

section \<open>Lemmas\<close>

lemma types_distinct [simp]:
  "TypeSCTP \<noteq> TypeSCTPKernel" "TypeSCTP \<noteq> TypeQUIC" "TypeSCTPKernel \<noteq> TypeQUIC"
  "TypeSCTPKernel \<noteq> TypeSCTP" "TypeQUIC \<noteq> TypeSCTP" "TypeQUIC \<noteq> TypeSCTPKernel"
  by (simp_all add: TypeSCTP_def TypeSCTPKernel_def TypeQUIC_def)

lemmas on_part_defs = on_sctp_def on_kernel_def on_quic_def

text \<open>A transport only touches its own part of the environment.\<close>

lemma backend_Dial_frame:
  assumes "backend_Dial p dl ended now cfg (s, w, q) = Some (r, s', w', q')"
  shows "(TransportType cfg \<noteq> TypeSCTP \<longrightarrow> s' = s) \<and> (TransportType cfg \<noteq> TypeSCTPKernel \<longrightarrow> w' = w)
    \<and> (TransportType cfg \<noteq> TypeQUIC \<longrightarrow> q' = q)"
  using assms by (auto simp: backend_Dial_def on_part_defs split: if_splits)

section \<open>Opening a channel for a worker\<close>

text \<open>
  \<open>Runner.open\<close> of \<open>pkg/load/load.go\<close>, with the three operations of the transport that it
  calls: a session whose channel cannot be opened is closed.
\<close>

definition runner_open :: "('e \<Rightarrow> ((go_error + 'sess) \<times> 'e) option) \<Rightarrow>
    ('sess \<Rightarrow> u16 \<Rightarrow> 'e \<Rightarrow> ((go_error + 'ch) \<times> 'e) option) \<Rightarrow> ('sess \<Rightarrow> 'e \<Rightarrow> 'e) \<Rightarrow>
    u16 \<Rightarrow> 'e \<Rightarrow> ((go_error + 'sess \<times> 'ch) \<times> 'e) option" where
  "runner_open dial open_channel close_session channelID e =
     (case dial e of
        None \<Rightarrow> None
      | Some (Inl err, e) \<Rightarrow> Some (Inl err, e)
      | Some (Inr sess, e) \<Rightarrow>
          (case open_channel sess channelID e of
             None \<Rightarrow> None
           | Some (Inl err, e) \<Rightarrow> Some (Inl err, close_session sess e)
           | Some (Inr ch, e) \<Rightarrow> Some (Inr (sess, ch), e)))"

definition quic_open :: "('s, 'cert, 'pool, 'ln, 'conn, 'st) quic_lib \<Rightarrow> ('key, 'cert, 'pool) tls_env \<Rightarrow>
    int option \<Rightarrow> config \<Rightarrow> u16 \<Rightarrow> 's \<Rightarrow> ((go_error + 'conn quic_session \<times> 's channel) \<times> 's) option" where
  "quic_open lib env dl cfg =
     runner_open (quic_Dial lib env dl cfg) (quic_OpenChannel lib dl)
       (\<lambda>sess s. snd (snd (quic_session_Close lib sess s)))"

text \<open>
  A worker that gets no channel over QUIC leaves no connection behind: whenever a connection has
  been made, the last thing done is to close it.
\<close>

lemma quic_open_closes:
  assumes "quic_open lib env dl cfg n s = Some (Inl err, s')"
    and "quic_Dial lib env dl cfg s = Some (Inr sess, s1)"
  shows "\<exists>s2. s' = CloseWithError lib (qs_conn sess) 0 [] s2"
proof -
  have "\<not> qs_done sess"
    using assms(2) by (auto simp: quic_Dial_def Let_def split: if_splits sum.splits option.splits prod.splits)
  with assms show ?thesis
    by (auto simp: quic_open_def runner_open_def quic_session_Close_def split: option.splits sum.splits prod.splits)
qed

end
