(* ===== verification/Flags.thy ===== *)
theory Flags
  imports Config "HOL-Library.Char_ord"
begin

text \<open>
  Go's package \<open>flag\<close> as \<open>cmd/mock5g/main.go\<close> uses it: a flag set that exits on errors, with
  string, integer, boolean and duration flags. The values of the flags are a map from names to
  values, which before parsing holds the defaults. \<open>time.ParseDuration\<close> is an argument.
\<close>

section \<open>Values\<close>

datatype flag_value = FString string | FInt int | FBool bool | FDuration int

definition lower_char :: "char \<Rightarrow> char" where
  "lower_char c = (if CHR ''A'' \<le> c \<and> c \<le> CHR ''Z'' then char_of (of_char c + 32 :: nat) else c)"

text \<open>\<open>strconv.ParseInt(s, 0, 64)\<close>: prefixes choose the base, underscores may separate digits.\<close>

definition digit_value :: "char \<Rightarrow> nat option" where
  "digit_value c =
     (let l = lower_char c
      in if CHR ''0'' \<le> c \<and> c \<le> CHR ''9'' then Some (of_char c - 48)
         else if CHR ''a'' \<le> l \<and> l \<le> CHR ''z'' then Some (of_char l - 87)
         else None)"

fun parse_digits :: "nat \<Rightarrow> nat \<Rightarrow> string \<Rightarrow> nat option" where
  "parse_digits base acc [] = Some acc"
| "parse_digits base acc (c # cs) =
     (if c = CHR ''_'' then parse_digits base acc cs
      else case digit_value c of
          None \<Rightarrow> None
        | Some d \<Rightarrow> if d < base then parse_digits base (acc * base + d) cs else None)"

definition base_split :: "string \<Rightarrow> nat \<times> string" where
  "base_split s =
     (case s of
        CHR ''0'' # t \<Rightarrow>
          (case t of
             p # u \<Rightarrow>
               if u \<noteq> [] \<and> lower_char p = CHR ''b'' then (2, u)
               else if u \<noteq> [] \<and> lower_char p = CHR ''o'' then (8, u)
               else if u \<noteq> [] \<and> lower_char p = CHR ''x'' then (16, u)
               else (8, t)
           | [] \<Rightarrow> (8, t))
      | _ \<Rightarrow> (10, s))"

text \<open>
  \<open>underscoreOK\<close>: an underscore stands between digits or after the prefix. The last seen
  character is \<open>^\<close> at the start, \<open>0\<close> for a digit, \<open>_\<close>, or \<open>!\<close>.
\<close>

fun underscores :: "bool \<Rightarrow> char \<Rightarrow> string \<Rightarrow> bool" where
  "underscores hex saw [] \<longleftrightarrow> saw \<noteq> CHR ''_''"
| "underscores hex saw (c # cs) \<longleftrightarrow>
     (if (CHR ''0'' \<le> c \<and> c \<le> CHR ''9'') \<or> (hex \<and> CHR ''a'' \<le> lower_char c \<and> lower_char c \<le> CHR ''f'')
      then underscores hex (CHR ''0'') cs
      else if c = CHR ''_'' then saw = CHR ''0'' \<and> underscores hex (CHR ''_'') cs
      else saw \<noteq> CHR ''_'' \<and> underscores hex (CHR ''!'') cs)"

definition underscore_ok :: "string \<Rightarrow> bool" where
  "underscore_ok s =
     (case s of
        CHR ''0'' # p # u \<Rightarrow>
          if lower_char p \<in> {CHR ''b'', CHR ''o'', CHR ''x''}
          then underscores (lower_char p = CHR ''x'') (CHR ''0'') u
          else underscores False (CHR ''^'') s
      | _ \<Rightarrow> underscores False (CHR ''^'') s)"

definition parse_uint :: "string \<Rightarrow> nat option" where
  "parse_uint s =
     (if s = [] then None
      else case base_split s of
          (base, t) \<Rightarrow>
            if CHR ''_'' \<in> set t \<and> \<not> underscore_ok s then None
            else parse_digits base 0 t)"

definition parse_int0 :: "string \<Rightarrow> int option" where
  "parse_int0 s =
     (let neg = (s \<noteq> [] \<and> hd s = CHR ''-'');
          t = (if s \<noteq> [] \<and> hd s \<in> {CHR ''+'', CHR ''-''} then tl s else s)
      in case parse_uint t of
           None \<Rightarrow> None
         | Some n \<Rightarrow>
             let i = (if neg then - int n else int n)
             in if in_int64 i then Some i else None)"

definition parse_bool :: "string \<Rightarrow> bool option" where
  "parse_bool s =
     (if s \<in> {''1'', ''t'', ''T'', ''true'', ''TRUE'', ''True''} then Some True
      else if s \<in> {''0'', ''f'', ''F'', ''false'', ''FALSE'', ''False''} then Some False
      else None)"

text \<open>\<open>flag.Value.Set\<close>: the new value, of the same kind as the old one.\<close>

definition set_value :: "(string \<Rightarrow> int option) \<Rightarrow> flag_value \<Rightarrow> string \<Rightarrow> flag_value option" where
  "set_value parse_duration old s =
     (case old of
        FString _ \<Rightarrow> Some (FString s)
      | FInt _ \<Rightarrow> map_option FInt (parse_int0 s)
      | FBool _ \<Rightarrow> map_option FBool (parse_bool s)
      | FDuration _ \<Rightarrow> map_option FDuration (parse_duration s))"

section \<open>Parsing\<close>

type_synonym flag_set = "string \<Rightarrow> flag_value option"

text \<open>The end of \<open>Parse\<close> with \<open>ExitOnError\<close>: the values, or the exit status of the process.\<close>

datatype parsed = Parsed flag_set | ExitsWith nat

text \<open>The name and value of an argument \<open>-name=value\<close>, cut at the first equals sign after the first character.\<close>

definition cut_equals :: "string \<Rightarrow> string \<times> string option" where
  "cut_equals name =
     (case name of
        [] \<Rightarrow> ([], None)
      | c # cs \<Rightarrow>
          (case dropWhile (\<lambda>d. d \<noteq> CHR ''='') cs of
             [] \<Rightarrow> (name, None)
           | _ # v \<Rightarrow> (c # takeWhile (\<lambda>d. d \<noteq> CHR ''='') cs, Some v)))"

text \<open>
  The text of a flag after its dashes: \<open>None\<close> for an argument that is not a flag, which ends
  the parsing, as does \<open>--\<close>.
\<close>

definition flag_text :: "string \<Rightarrow> string option" where
  "flag_text s =
     (if length s < 2 \<or> hd s \<noteq> CHR ''-'' then None
      else if s ! 1 = CHR ''-'' then (if length s = 2 then None else Some (drop 2 s))
      else Some (drop 1 s))"

definition bad_syntax :: "string \<Rightarrow> bool" where
  "bad_syntax name \<longleftrightarrow> name = [] \<or> hd name = CHR ''-'' \<or> hd name = CHR ''=''"

definition parse_failed :: parsed where "parse_failed = ExitsWith 2"

text \<open>Setting the flag \<open>name\<close>, whose current value is \<open>old\<close>.\<close>

definition update_flag :: "(string \<Rightarrow> int option) \<Rightarrow> flag_set \<Rightarrow> string \<Rightarrow> flag_value \<Rightarrow> string \<Rightarrow> flag_set option" where
  "update_flag pd fs name old v = map_option (\<lambda>x. fs(name \<mapsto> x)) (set_value pd old v)"

fun parse_flags :: "(string \<Rightarrow> int option) \<Rightarrow> flag_set \<Rightarrow> string list \<Rightarrow> parsed" where
  "parse_flags pd fs [] = Parsed fs"
| "parse_flags pd fs (s # args) =
     (case flag_text s of
        None \<Rightarrow> Parsed fs
      | Some txt \<Rightarrow>
          if bad_syntax txt then parse_failed
          else case cut_equals txt of
              (name, value) \<Rightarrow>
                (case fs name of
                   None \<Rightarrow> if name = ''help'' \<or> name = ''h'' then ExitsWith 0 else parse_failed
                 | Some (FBool b) \<Rightarrow>
                     (case update_flag pd fs name (FBool b) (case value of None \<Rightarrow> ''true'' | Some v \<Rightarrow> v) of
                        None \<Rightarrow> parse_failed
                      | Some fs \<Rightarrow> parse_flags pd fs args)
                 | Some old \<Rightarrow>
                     (case value of
                        Some v \<Rightarrow>
                          (case update_flag pd fs name old v of
                             None \<Rightarrow> parse_failed
                           | Some fs \<Rightarrow> parse_flags pd fs args)
                      | None \<Rightarrow>
                          (case args of
                             [] \<Rightarrow> parse_failed
                           | v # args \<Rightarrow>
                               (case update_flag pd fs name old v of
                                  None \<Rightarrow> parse_failed
                                | Some fs \<Rightarrow> parse_flags pd fs args)))))"

text \<open>The values as the program reads them; a flag of another kind has no value of this one.\<close>

definition get_string :: "flag_set \<Rightarrow> string \<Rightarrow> string" where
  "get_string fs n = (case fs n of Some (FString s) \<Rightarrow> s | _ \<Rightarrow> [])"

definition get_int :: "flag_set \<Rightarrow> string \<Rightarrow> int" where
  "get_int fs n = (case fs n of Some (FInt i) \<Rightarrow> i | _ \<Rightarrow> 0)"

definition get_bool :: "flag_set \<Rightarrow> string \<Rightarrow> bool" where
  "get_bool fs n = (case fs n of Some (FBool b) \<Rightarrow> b | _ \<Rightarrow> False)"

definition get_duration :: "flag_set \<Rightarrow> string \<Rightarrow> int" where
  "get_duration fs n = (case fs n of Some (FDuration d) \<Rightarrow> d | _ \<Rightarrow> 0)"

section \<open>Lemmas\<close>

fun same_kind :: "flag_value \<Rightarrow> flag_value \<Rightarrow> bool" where
  "same_kind (FString _) (FString _) = True"
| "same_kind (FInt _) (FInt _) = True"
| "same_kind (FBool _) (FBool _) = True"
| "same_kind (FDuration _) (FDuration _) = True"
| "same_kind _ _ = False"

lemma same_kind_refl [simp]: "same_kind x x"
  by (cases x) simp_all

lemma same_kind_trans: "same_kind x y \<Longrightarrow> same_kind y z \<Longrightarrow> same_kind x z"
  by (cases x; cases y; cases z) simp_all

lemma set_value_kind: "set_value pd old s = Some x \<Longrightarrow> same_kind old x"
  by (cases old) (auto simp: set_value_def)

lemma set_value_same: "same_kind x y \<Longrightarrow> set_value pd x = set_value pd y"
  by (cases x; cases y) (auto simp: set_value_def)

text \<open>Parsing keeps the names of the flags and their kinds.\<close>

definition kinds_kept :: "flag_set \<Rightarrow> flag_set \<Rightarrow> bool" where
  "kinds_kept fs fs' \<longleftrightarrow> (\<forall>n. rel_option same_kind (fs n) (fs' n))"

lemma kinds_kept_refl [simp]: "kinds_kept fs fs"
  by (simp add: kinds_kept_def option.rel_refl)

lemma kinds_kept_trans: "kinds_kept f g \<Longrightarrow> kinds_kept g h \<Longrightarrow> kinds_kept f h"
  unfolding kinds_kept_def by (metis (mono_tags, lifting) same_kind_trans option.rel_transp transpD transpI)

lemma update_flag_kinds: "update_flag pd fs n old v = Some fs' \<Longrightarrow> fs n = Some old \<Longrightarrow> kinds_kept fs fs'"
  by (auto simp: update_flag_def kinds_kept_def option.rel_refl dest: set_value_kind)

lemma parse_flags_kinds: "parse_flags pd fs args = Parsed fs' \<Longrightarrow> kinds_kept fs fs'"
proof (induction pd fs args arbitrary: fs' rule: parse_flags.induct)
  case (2 pd fs s args)
  then show ?case
    by (auto simp: parse_failed_def split: option.splits if_splits prod.splits flag_value.splits list.splits
        intro: kinds_kept_trans update_flag_kinds)
qed simp

lemma kinds_kept_get:
  assumes "kinds_kept fs fs'"
  shows "fs n = Some (FString a) \<Longrightarrow> fs' n = Some (FString (get_string fs' n))"
    and "fs n = Some (FInt i) \<Longrightarrow> fs' n = Some (FInt (get_int fs' n))"
    and "fs n = Some (FBool b) \<Longrightarrow> fs' n = Some (FBool (get_bool fs' n))"
    and "fs n = Some (FDuration d) \<Longrightarrow> fs' n = Some (FDuration (get_duration fs' n))"
  using assms [unfolded kinds_kept_def, rule_format, of n]
  by (auto simp: get_string_def get_int_def get_bool_def get_duration_def option_rel_Some1
      elim!: same_kind.elims)

text \<open>Arguments of the form \<open>--name=value\<close>: each sets its flag, so the last one of a name wins.\<close>

definition flag_arg :: "string \<times> string \<Rightarrow> string" where
  "flag_arg kv = ''--'' @ fst kv @ ''='' @ snd kv"

definition flag_name :: "string \<Rightarrow> bool" where
  "flag_name n \<longleftrightarrow> n \<noteq> [] \<and> CHR ''='' \<notin> set n \<and> hd n \<noteq> CHR ''-''"

fun set_all :: "(string \<Rightarrow> int option) \<Rightarrow> flag_set \<Rightarrow> (string \<times> string) list \<Rightarrow> flag_set option" where
  "set_all pd fs [] = Some fs"
| "set_all pd fs (kv # kvs) =
     (case fs (fst kv) of
        None \<Rightarrow> None
      | Some old \<Rightarrow>
          (case update_flag pd fs (fst kv) old (snd kv) of
             None \<Rightarrow> None
           | Some fs \<Rightarrow> set_all pd fs kvs))"

lemma flag_text_arg: "flag_text (flag_arg (n, v)) = Some (n @ CHR ''='' # v)"
  by (simp add: flag_text_def flag_arg_def)

lemma cut_equals_arg: "flag_name n \<Longrightarrow> cut_equals (n @ CHR ''='' # v) = (n, Some v)"
  by (cases n) (auto simp: cut_equals_def flag_name_def dropWhile_append takeWhile_append)

lemma bad_syntax_arg: "flag_name n \<Longrightarrow> \<not> bad_syntax (n @ CHR ''='' # v)"
  by (cases n) (auto simp: bad_syntax_def flag_name_def)

lemma parse_flags_arg:
  assumes "flag_name n" and "fs n = Some old"
  shows "parse_flags pd fs (flag_arg (n, v) # args) =
    (case update_flag pd fs n old v of None \<Rightarrow> parse_failed | Some fs \<Rightarrow> parse_flags pd fs args)"
  using assms by (cases old) (simp_all add: flag_text_arg cut_equals_arg bad_syntax_arg)

lemma update_flag_dom: "update_flag pd fs n old v = Some fs' \<Longrightarrow> dom fs \<subseteq> dom fs'"
  by (auto simp: update_flag_def)

lemma parse_flags_args:
  "\<forall>kv \<in> set kvs. flag_name (fst kv) \<and> fst kv \<in> dom fs \<Longrightarrow>
    parse_flags pd fs (map flag_arg kvs) = (case set_all pd fs kvs of None \<Rightarrow> parse_failed | Some fs' \<Rightarrow> Parsed fs')"
proof (induction kvs arbitrary: fs)
  case (Cons kv kvs)
  obtain n v where kv: "kv = (n, v)" by (cases kv)
  from Cons.prems kv obtain old where old: "fs n = Some old" and n: "flag_name n" by auto
  show ?case
  proof (cases "update_flag pd fs n old v")
    case None
    then show ?thesis using kv old by (simp add: parse_flags_arg [of n fs old, OF n old] del: parse_flags.simps)
  next
    case (Some fs1)
    with update_flag_dom [OF this] Cons.prems have "\<forall>kv \<in> set kvs. flag_name (fst kv) \<and> fst kv \<in> dom fs1"
      by (meson list.set_intros(2) subsetD)
    from Cons.IH [OF this] Some show ?thesis using kv old by (simp add: parse_flags_arg [of n fs old, OF n old] del: parse_flags.simps)
  qed
qed simp

lemma set_all_value:
  "set_all pd fs kvs = Some fs' \<Longrightarrow> fs n = Some old \<Longrightarrow>
    fs' n = (case map_of (rev kvs) n of None \<Rightarrow> Some old | Some v \<Rightarrow> set_value pd old v)"
proof (induction kvs arbitrary: fs old)
  case (Cons kv kvs)
  obtain m v where kv: "kv = (m, v)" by (cases kv)
  from Cons.prems(1) kv obtain old' x where upd: "fs m = Some old'" "set_value pd old' v = Some x"
      "set_all pd (fs(m \<mapsto> x)) kvs = Some fs'"
    by (auto simp: update_flag_def split: option.splits)
  show ?case
  proof (cases "n = m")
    case True
    with upd Cons.prems(2) have "set_value pd x = set_value pd old"
      using set_value_kind set_value_same by fastforce
    with True upd Cons.IH [OF upd(3), of x] Cons.prems(2) kv show ?thesis
      by (auto simp: map_add_def split: option.splits)
  next
    case False
    with Cons.IH [OF upd(3), of old] Cons.prems(2) kv show ?thesis
      by (auto simp: map_add_def split: option.splits)
  qed
qed simp

section \<open>Numbers in flags\<close>

lemma digit_cases: "d < 10 \<Longrightarrow> d \<in> {0, 1, 2, 3, 4, 5, 6, 7, 8, 9 :: nat}"
  by auto

lemma digit_char_lits:
  "digit_char 0 = CHR ''0''" "digit_char 1 = CHR ''1''" "digit_char (Suc 0) = CHR ''1''" "digit_char 2 = CHR ''2''"
  "digit_char 3 = CHR ''3''" "digit_char 4 = CHR ''4''" "digit_char 5 = CHR ''5''" "digit_char 6 = CHR ''6''"
  "digit_char 7 = CHR ''7''" "digit_char 8 = CHR ''8''" "digit_char 9 = CHR ''9''"
  by code_simp+

lemma digit_value_char: "d < 10 \<Longrightarrow> digit_value (digit_char d) = Some d"
  by (drule digit_cases) (auto simp: digit_value_def digit_char_lits Let_def less_eq_char_def)

lemma digit_char_not_underscore: "d < 10 \<Longrightarrow> digit_char d \<noteq> CHR ''_''"
  by (drule digit_cases) (auto simp: digit_char_lits)

lemma parse_digits_append:
  "parse_digits b acc (xs @ ys) = (case parse_digits b acc xs of None \<Rightarrow> None | Some a \<Rightarrow> parse_digits b a ys)"
  by (induction xs arbitrary: acc) (auto split: option.splits)

lemma parse_digits_format: "parse_digits 10 0 (format_nat n) = Some n"
proof (induction n rule: format_nat.induct)
  case (1 n)
  show ?case
  proof (cases "n < 10")
    case True
    then show ?thesis
      by (subst format_nat.simps) (simp add: digit_value_char digit_char_not_underscore)
  next
    case False
    then show ?thesis
      using "1.IH" by (subst format_nat.simps) (simp add: parse_digits_append digit_value_char digit_char_not_underscore)
  qed
qed

lemma format_nat_first: "0 < n \<Longrightarrow> \<exists>d t. 0 < d \<and> d < 10 \<and> format_nat n = digit_char d # t"
proof (induction n rule: format_nat.induct)
  case (1 n)
  show ?case
  proof (cases "n < 10")
    case True
    with "1.prems" show ?thesis by (subst format_nat.simps) auto
  next
    case False
    then have "0 < n div 10" by simp
    with "1.IH" [OF False] obtain d t where "0 < d" "d < 10" "format_nat (n div 10) = digit_char d # t" by blast
    with False show ?thesis by (subst format_nat.simps) auto
  qed
qed

lemma format_nat_no_underscore: "CHR ''_'' \<notin> set (format_nat n)"
  using format_nat_digits digit_char_not_underscore by metis

lemma parse_uint_format: "parse_uint (format_nat n) = Some n"
proof (cases "n = 0")
  case True
  then show ?thesis
    by (subst format_nat.simps) (simp add: parse_uint_def base_split_def digit_char_lits)
next
  case False
  then obtain d t where d: "0 < d" "d < 10" and n: "format_nat n = digit_char d # t"
    using format_nat_first by blast
  have "digit_char d \<noteq> CHR ''0''"
    using digit_cases [OF d(2)] d(1) by (auto simp: digit_char_lits)
  then have "base_split (format_nat n) = (10, format_nat n)"
    by (auto simp: n base_split_def split: char.splits bool.splits)
  then show ?thesis
    by (simp add: parse_uint_def format_nat_no_underscore parse_digits_format)
qed

text \<open>The decimal text of a 64-bit integer is a value of an integer flag.\<close>

lemma parse_int0_format:
  assumes "in_int64 i"
  shows "parse_int0 (format_int i) = Some i"
proof (cases "i < 0")
  case True
  with assms show ?thesis
    by (simp add: parse_int0_def format_int_def Let_def parse_uint_format)
next
  case False
  obtain d t where d: "d < 10" and n: "format_nat (nat i) = digit_char d # t"
    using format_nat_digits [of "hd (format_nat (nat i))" "nat i"]
    by (cases "format_nat (nat i)") auto
  have "digit_char d \<notin> {CHR ''+'', CHR ''-''}"
    using digit_cases [OF d] by (auto simp: digit_char_lits)
  with False assms n parse_uint_format [of "nat i"] show ?thesis
    by (simp add: parse_int0_def format_int_def Let_def)
qed

end
