(* ===== verification/Cli.thy ===== *)
theory Cli
  imports Flags
begin

text \<open>
  The command line of \<open>cmd/mock5g/main.go\<close>: the configuration file named by the arguments, the
  flags of the two commands with their defaults, the settings that result, and the exit status.
\<close>

section \<open>The configuration file\<close>

fun configPathFromArgs :: "string list \<Rightarrow> string" where
  "configPathFromArgs [] = []"
| "configPathFromArgs (a # as) =
     (if a = ''--config'' \<and> as \<noteq> [] then hd as
      else if 9 < length a \<and> take 9 a = ''--config='' then drop 9 a
      else configPathFromArgs as)"

text \<open>The start of \<open>runAMF\<close> and \<open>runGNB\<close>.\<close>

definition loaded_config :: "(string \<Rightarrow> go_error + bytes) \<Rightarrow> yaml_decoder \<Rightarrow> string list \<Rightarrow> go_error + app_config" where
  "loaded_config files unmarshal args =
     (if configPathFromArgs args \<noteq> [] then LoadConfig files unmarshal (configPathFromArgs args)
      else Inr Default)"

section \<open>The flags\<close>

definition amf_flags :: "app_config \<Rightarrow> flag_set" where
  "amf_flags cfg = (let t = TransportPart cfg in
     [''config'' \<mapsto> FString [],
      ''transport'' \<mapsto> FString (TransportType t),
      ''listen-ip'' \<mapsto> FString (LocalIP t),
      ''listen-port'' \<mapsto> FInt (LocalPort t),
      ''channels'' \<mapsto> FInt (ChannelCount t),
      ''nodelay'' \<mapsto> FBool (NoDelay t),
      ''heartbeat-ms'' \<mapsto> FInt (HeartbeatMS t),
      ''tls'' \<mapsto> FBool (TLS t),
      ''alpn'' \<mapsto> FString (ALPN t),
      ''cert-file'' \<mapsto> FString (CertFile t),
      ''key-file'' \<mapsto> FString (KeyFile t),
      ''ca-file'' \<mapsto> FString (CAFile t)])"

definition amf_settings :: "flag_set \<Rightarrow> app_config \<Rightarrow> config" where
  "amf_settings fs cfg = (TransportPart cfg)\<lparr>
     TransportType := get_string fs ''transport'',
     LocalIP := get_string fs ''listen-ip'',
     LocalPort := get_int fs ''listen-port'',
     ChannelCount := get_int fs ''channels'',
     NoDelay := get_bool fs ''nodelay'',
     HeartbeatMS := get_int fs ''heartbeat-ms'',
     TLS := get_bool fs ''tls'',
     ALPN := get_string fs ''alpn'',
     CertFile := get_string fs ''cert-file'',
     KeyFile := get_string fs ''key-file'',
     CAFile := get_string fs ''ca-file''\<rparr>"

definition gnb_flags :: "app_config \<Rightarrow> flag_set" where
  "gnb_flags cfg = (let t = TransportPart cfg; r = RunPart cfg in
     [''config'' \<mapsto> FString [],
      ''mode'' \<mapsto> FString (RunMode r),
      ''transport'' \<mapsto> FString (TransportType t),
      ''remote-ip'' \<mapsto> FString (RemoteIP t),
      ''remote-port'' \<mapsto> FInt (RemotePort t),
      ''local-ip'' \<mapsto> FString (LocalIP t),
      ''local-port'' \<mapsto> FInt 0,
      ''workers'' \<mapsto> FInt (Workers r),
      ''channels'' \<mapsto> FInt (ChannelCount t),
      ''pps'' \<mapsto> FInt (PPS r),
      ''duration'' \<mapsto> FDuration (Duration r),
      ''step-count'' \<mapsto> FInt (StepCount r),
      ''step-start-pps'' \<mapsto> FInt (StepStartPPS r),
      ''step-increment'' \<mapsto> FInt (StepIncrement r),
      ''step-duration'' \<mapsto> FDuration (StepDuration r),
      ''out-csv'' \<mapsto> FString (OutputCSV r),
      ''nas-template'' \<mapsto> FString [],
      ''nas-hex'' \<mapsto> FBool False,
      ''recv-timeout'' \<mapsto> FDuration (RecvTimeout r),
      ''latency-rate-limit'' \<mapsto> FBool (LatencyRateLimit r),
      ''nodelay'' \<mapsto> FBool (NoDelay t),
      ''heartbeat-ms'' \<mapsto> FInt (HeartbeatMS t),
      ''tls'' \<mapsto> FBool (TLS t),
      ''alpn'' \<mapsto> FString (ALPN t),
      ''cert-file'' \<mapsto> FString (CertFile t),
      ''key-file'' \<mapsto> FString (KeyFile t),
      ''ca-file'' \<mapsto> FString (CAFile t)])"

definition gnb_settings :: "flag_set \<Rightarrow> app_config \<Rightarrow> app_config" where
  "gnb_settings fs cfg =
     (let t = (TransportPart cfg)\<lparr>
            TransportType := get_string fs ''transport'',
            RemoteIP := get_string fs ''remote-ip'',
            RemotePort := get_int fs ''remote-port'',
            LocalIP := get_string fs ''local-ip'',
            LocalPort := get_int fs ''local-port'',
            ChannelCount := get_int fs ''channels'',
            NoDelay := get_bool fs ''nodelay'',
            HeartbeatMS := get_int fs ''heartbeat-ms'',
            TLS := get_bool fs ''tls'',
            ALPN := get_string fs ''alpn'',
            CertFile := get_string fs ''cert-file'',
            KeyFile := get_string fs ''key-file'',
            CAFile := get_string fs ''ca-file''\<rparr>;
          r = (RunPart cfg)\<lparr>
            RunMode := get_string fs ''mode'',
            Workers := get_int fs ''workers'',
            PPS := get_int fs ''pps'',
            Duration := get_duration fs ''duration'',
            StepCount := get_int fs ''step-count'',
            StepStartPPS := get_int fs ''step-start-pps'',
            StepIncrement := get_int fs ''step-increment'',
            StepDuration := get_duration fs ''step-duration'',
            OutputCSV := get_string fs ''out-csv'',
            NASPath := get_string fs ''nas-template'',
            NASHex := get_bool fs ''nas-hex'',
            RecvTimeout := get_duration fs ''recv-timeout'',
            LatencyRateLimit := get_bool fs ''latency-rate-limit'',
            RunChannelCount := get_int fs ''channels''\<rparr>;
          t = (if ConnectTimeout t = 0 then t\<lparr>ConnectTimeout := 5 * second\<rparr> else t)
      in \<lparr>TransportPart = t, RunPart = r\<rparr>)"

section \<open>The commands\<close>

text \<open>What a command does before it starts: fail, exit the process, or run with the settings.\<close>

datatype 'a command = Fails go_error | Exits nat | Runs 'a

definition amf_command :: "(string \<Rightarrow> go_error + bytes) \<Rightarrow> yaml_decoder \<Rightarrow> (string \<Rightarrow> int option) \<Rightarrow>
    string list \<Rightarrow> config command" where
  "amf_command files unmarshal pd args =
     (case loaded_config files unmarshal args of
        Inl err \<Rightarrow> Fails err
      | Inr cfg \<Rightarrow>
          (case parse_flags pd (amf_flags cfg) args of
             ExitsWith n \<Rightarrow> Exits n
           | Parsed fs \<Rightarrow> Runs (amf_settings fs cfg)))"

definition gnb_command :: "(string \<Rightarrow> go_error + bytes) \<Rightarrow> yaml_decoder \<Rightarrow> (string \<Rightarrow> int option) \<Rightarrow>
    string list \<Rightarrow> app_config command" where
  "gnb_command files unmarshal pd args =
     (case loaded_config files unmarshal args of
        Inl err \<Rightarrow> Fails err
      | Inr cfg \<Rightarrow>
          (case parse_flags pd (gnb_flags cfg) args of
             ExitsWith n \<Rightarrow> Exits n
           | Parsed fs \<Rightarrow> Runs (gnb_settings fs cfg)))"

text \<open>The exit status of \<open>main\<close>; \<open>serve\<close> and \<open>drive\<close> are the server and the client.\<close>

definition finish :: "('a \<Rightarrow> go_error option) \<Rightarrow> 'a command \<Rightarrow> go_error option + nat" where
  "finish run c = (case c of Fails err \<Rightarrow> Inl (Some err) | Exits n \<Rightarrow> Inr n | Runs a \<Rightarrow> Inl (run a))"

definition main_status :: "(string \<Rightarrow> go_error + bytes) \<Rightarrow> yaml_decoder \<Rightarrow> (string \<Rightarrow> int option) \<Rightarrow>
    (config \<Rightarrow> go_error option) \<Rightarrow> (app_config \<Rightarrow> go_error option) \<Rightarrow> string list \<Rightarrow> nat" where
  "main_status files unmarshal pd serve drive os_args =
     (if length os_args < 2 then 2
      else
        let cmd = os_args ! 1;
            args = drop 2 os_args;
            r = (if cmd = ''amf'' then finish serve (amf_command files unmarshal pd args)
              else if cmd = ''gnb'' then finish drive (gnb_command files unmarshal pd args)
              else Inl (Some (Errorf ''unknown command %q'' [] [cmd])))
        in case r of
             Inr n \<Rightarrow> n
           | Inl None \<Rightarrow> 0
           | Inl (Some err) \<Rightarrow> if errors_is err Canceled then 0 else 1)"

section \<open>Properties\<close>

lemmas getters = get_string_def get_int_def get_bool_def get_duration_def

text \<open>The value of a flag that may be given on the command line.\<close>

definition given :: "(string \<times> string) list \<Rightarrow> string \<Rightarrow> (string \<Rightarrow> 'a option) \<Rightarrow> 'a \<Rightarrow> 'a option" where
  "given kvs n conv dflt = (case map_of (rev kvs) n of None \<Rightarrow> Some dflt | Some v \<Rightarrow> conv v)"

lemma given_values:
  assumes "set_all pd fs kvs = Some fs'"
  shows "fs n = Some (FString a) \<Longrightarrow> given kvs n Some a = Some (get_string fs' n)"
    and "fs n = Some (FInt i) \<Longrightarrow> given kvs n parse_int0 i = Some (get_int fs' n)"
    and "fs n = Some (FBool b) \<Longrightarrow> given kvs n parse_bool b = Some (get_bool fs' n)"
    and "fs n = Some (FDuration d) \<Longrightarrow> given kvs n pd d = Some (get_duration fs' n)"
proof -
  have kinds: "kinds_kept fs fs'"
    using assms
  proof (induction kvs arbitrary: fs)
    case (Cons kv kvs)
    then show ?case
      by (auto split: option.splits intro: kinds_kept_trans update_flag_kinds)
  qed simp
  note val = set_all_value [OF assms, of n]
  show "fs n = Some (FString a) \<Longrightarrow> given kvs n Some a = Some (get_string fs' n)"
    using val [symmetric] kinds_kept_get(1) [OF kinds, of n] by (fastforce simp: given_def set_value_def split: option.splits)
  show "fs n = Some (FInt i) \<Longrightarrow> given kvs n parse_int0 i = Some (get_int fs' n)"
    using val [symmetric] kinds_kept_get(2) [OF kinds, of n] by (fastforce simp: given_def set_value_def split: option.splits)
  show "fs n = Some (FBool b) \<Longrightarrow> given kvs n parse_bool b = Some (get_bool fs' n)"
    using val [symmetric] kinds_kept_get(3) [OF kinds, of n] by (fastforce simp: given_def set_value_def split: option.splits)
  show "fs n = Some (FDuration d) \<Longrightarrow> given kvs n pd d = Some (get_duration fs' n)"
    using val [symmetric] kinds_kept_get(4) [OF kinds, of n] by (fastforce simp: given_def set_value_def split: option.splits)
qed

lemma gnb_command_args:
  assumes "\<forall>kv \<in> set kvs. flag_name (fst kv) \<and> fst kv \<in> dom (gnb_flags Default)"
    and "loaded_config files unmarshal (map flag_arg kvs) = Inr cfg0"
    and "gnb_command files unmarshal pd (map flag_arg kvs) = Runs cfg"
  shows "\<exists>fs. set_all pd (gnb_flags cfg0) kvs = Some fs \<and> cfg = gnb_settings fs cfg0"
proof -
  have "dom (gnb_flags cfg0) = dom (gnb_flags Default)"
    by (simp add: gnb_flags_def Let_def)
  then show ?thesis
    using assms parse_flags_args [of kvs "gnb_flags cfg0" pd]
    by (auto simp: gnb_command_def parse_failed_def split: option.splits)
qed

text \<open>C22: The settings of a gNB run, all of them. Every flag given as \<open>--name=value\<close> takes effect with
  the value of its last occurrence, read as its kind of value; a flag that is not given leaves
  the setting of the configuration file or the default, except the local port and the two of the
  NAS template, which only the command line sets. The number of channels is that of the
  transport, a missing connect timeout becomes five seconds, and the settings without a flag are
  those of the file.\<close>

theorem gnb_flags_override:
  assumes "\<forall>kv \<in> set kvs. flag_name (fst kv) \<and> fst kv \<in> dom (gnb_flags Default)"
    and "loaded_config files unmarshal (map flag_arg kvs) = Inr cfg0"
    and "gnb_command files unmarshal pd (map flag_arg kvs) = Runs cfg"
  shows "given kvs ''mode'' Some (RunMode (RunPart cfg0)) = Some (RunMode (RunPart cfg))
    \<and> given kvs ''transport'' Some (TransportType (TransportPart cfg0)) = Some (TransportType (TransportPart cfg))
    \<and> given kvs ''remote-ip'' Some (RemoteIP (TransportPart cfg0)) = Some (RemoteIP (TransportPart cfg))
    \<and> given kvs ''remote-port'' parse_int0 (RemotePort (TransportPart cfg0)) = Some (RemotePort (TransportPart cfg))
    \<and> given kvs ''local-ip'' Some (LocalIP (TransportPart cfg0)) = Some (LocalIP (TransportPart cfg))
    \<and> given kvs ''workers'' parse_int0 (Workers (RunPart cfg0)) = Some (Workers (RunPart cfg))
    \<and> given kvs ''channels'' parse_int0 (ChannelCount (TransportPart cfg0)) = Some (ChannelCount (TransportPart cfg))
    \<and> given kvs ''pps'' parse_int0 (PPS (RunPart cfg0)) = Some (PPS (RunPart cfg))
    \<and> given kvs ''duration'' pd (Duration (RunPart cfg0)) = Some (Duration (RunPart cfg))
    \<and> given kvs ''step-count'' parse_int0 (StepCount (RunPart cfg0)) = Some (StepCount (RunPart cfg))
    \<and> given kvs ''step-start-pps'' parse_int0 (StepStartPPS (RunPart cfg0)) = Some (StepStartPPS (RunPart cfg))
    \<and> given kvs ''step-increment'' parse_int0 (StepIncrement (RunPart cfg0)) = Some (StepIncrement (RunPart cfg))
    \<and> given kvs ''step-duration'' pd (StepDuration (RunPart cfg0)) = Some (StepDuration (RunPart cfg))
    \<and> given kvs ''out-csv'' Some (OutputCSV (RunPart cfg0)) = Some (OutputCSV (RunPart cfg))
    \<and> given kvs ''recv-timeout'' pd (RecvTimeout (RunPart cfg0)) = Some (RecvTimeout (RunPart cfg))
    \<and> given kvs ''latency-rate-limit'' parse_bool (LatencyRateLimit (RunPart cfg0)) = Some (LatencyRateLimit (RunPart cfg))
    \<and> given kvs ''nodelay'' parse_bool (NoDelay (TransportPart cfg0)) = Some (NoDelay (TransportPart cfg))
    \<and> given kvs ''heartbeat-ms'' parse_int0 (HeartbeatMS (TransportPart cfg0)) = Some (HeartbeatMS (TransportPart cfg))
    \<and> given kvs ''tls'' parse_bool (TLS (TransportPart cfg0)) = Some (TLS (TransportPart cfg))
    \<and> given kvs ''alpn'' Some (ALPN (TransportPart cfg0)) = Some (ALPN (TransportPart cfg))
    \<and> given kvs ''cert-file'' Some (CertFile (TransportPart cfg0)) = Some (CertFile (TransportPart cfg))
    \<and> given kvs ''key-file'' Some (KeyFile (TransportPart cfg0)) = Some (KeyFile (TransportPart cfg))
    \<and> given kvs ''ca-file'' Some (CAFile (TransportPart cfg0)) = Some (CAFile (TransportPart cfg))
    \<and> given kvs ''local-port'' parse_int0 0 = Some (LocalPort (TransportPart cfg))
    \<and> given kvs ''nas-template'' Some [] = Some (NASPath (RunPart cfg))
    \<and> given kvs ''nas-hex'' parse_bool False = Some (NASHex (RunPart cfg))
    \<and> RunChannelCount (RunPart cfg) = ChannelCount (TransportPart cfg)
    \<and> ConnectTimeout (TransportPart cfg) = (if ConnectTimeout (TransportPart cfg0) = 0 then 5 * second
        else ConnectTimeout (TransportPart cfg0))
    \<and> ReadBuffer (TransportPart cfg) = ReadBuffer (TransportPart cfg0)
    \<and> WriteBuffer (TransportPart cfg) = WriteBuffer (TransportPart cfg0)
    \<and> Warmup (RunPart cfg) = Warmup (RunPart cfg0) \<and> StepPPS (RunPart cfg) = StepPPS (RunPart cfg0)
    \<and> BasePPS (RunPart cfg) = BasePPS (RunPart cfg0) \<and> ConnectWait (RunPart cfg) = ConnectWait (RunPart cfg0)"
proof -
  from gnb_command_args [OF assms] obtain fs where fs: "set_all pd (gnb_flags cfg0) kvs = Some fs"
    and cfg: "cfg = gnb_settings fs cfg0" by blast
  show ?thesis
    unfolding cfg gnb_settings_def Let_def
    by (simp add: given_values [OF fs] gnb_flags_def Let_def)
qed

theorem gnb_flags_override_witness:
  "\<exists>cfg. gnb_command (\<lambda>p. Inl ErrEOF) (\<lambda>b c. Inr c) (\<lambda>s. Some 9)
      (map flag_arg [(''pps'', ''5''), (''key-file'', ''k.pem''), (''step-start-pps'', ''5''), (''cert-file'', ''c.pem''),
        (''channels'', ''7''), (''duration'', ''9ns''), (''latency-rate-limit'', ''f''), (''pps'', ''7'')]) = Runs cfg
    \<and> PPS (RunPart cfg) = 7 \<and> CertFile (TransportPart cfg) = ''c.pem'' \<and> KeyFile (TransportPart cfg) = ''k.pem''
    \<and> StepStartPPS (RunPart cfg) = 5 \<and> StepCount (RunPart cfg) = StepCount (RunPart Default)
    \<and> ChannelCount (TransportPart cfg) = 7 \<and> RunChannelCount (RunPart cfg) = 7
    \<and> Duration (RunPart cfg) = 9 \<and> \<not> LatencyRateLimit (RunPart cfg)"
proof -
  let ?files = "\<lambda>p. Inl ErrEOF :: go_error + bytes" and ?um = "\<lambda>b c. Inr c :: go_error + app_config" and ?pd = "\<lambda>s. Some 9 :: int option"
  let ?kvs = "[(''pps'', ''5''), (''key-file'', ''k.pem''), (''step-start-pps'', ''5''), (''cert-file'', ''c.pem''),
        (''channels'', ''7''), (''duration'', ''9ns''), (''latency-rate-limit'', ''f''), (''pps'', ''7'')]"
  have names: "\<forall>kv \<in> set ?kvs. flag_name (fst kv) \<and> fst kv \<in> dom (gnb_flags Default)"
    by (simp add: flag_name_def gnb_flags_def Let_def)
  have cfg0: "loaded_config ?files ?um (map flag_arg ?kvs) = Inr Default"
    by (simp add: loaded_config_def flag_arg_def)
  have nums: "parse_int0 ''5'' = Some 5" "parse_int0 ''7'' = Some 7" "parse_bool ''f'' = Some False"
    by code_simp+
  have "\<exists>fs. set_all ?pd (gnb_flags Default) ?kvs = Some fs"
    by (simp add: gnb_flags_def Let_def update_flag_def set_value_def nums)
  then obtain cfg where run: "gnb_command ?files ?um ?pd (map flag_arg ?kvs) = Runs cfg"
    using parse_flags_args [OF names, of ?pd] cfg0 by (auto simp: gnb_command_def simp del: list.map)
  from gnb_flags_override [OF names cfg0 run] run nums show ?thesis
    by (auto simp: given_def simp del: list.map)
qed

text \<open>C23: A gNB started with \<open>--config\<close> and nothing else runs with exactly the settings of the file,
  but four of them are lost: the local port, the NAS template path and its encoding are reset to
  zero values, and the run's channel count is overwritten by that of the transport.\<close>

theorem gnb_file_settings:
  assumes "path \<noteq> []" and "files path = Inr raw" and "unmarshal raw Default = Inr cfg0"
    and "args = [''--config'', path] \<or> args = [flag_arg (''config'', path)]"
  shows "gnb_command files unmarshal pd args = Runs
    \<lparr>TransportPart = (TransportPart cfg0)\<lparr>LocalPort := 0, ConnectTimeout :=
        (if ConnectTimeout (TransportPart cfg0) = 0 then 5 * second else ConnectTimeout (TransportPart cfg0))\<rparr>,
     RunPart = (RunPart cfg0)\<lparr>NASPath := [], NASHex := False, RunChannelCount := ChannelCount (TransportPart cfg0)\<rparr>\<rparr>"
proof -
  have "configPathFromArgs args = path"
    using assms(1,4) by (cases path) (auto simp: flag_arg_def)
  then have load: "loaded_config files unmarshal args = Inr cfg0"
    using assms(1,2,3) by (simp add: loaded_config_def LoadConfig_def)
  let ?fs = "(gnb_flags cfg0)(''config'' \<mapsto> FString path)"
  have config: "gnb_flags cfg0 ''config'' = Some (FString [])"
    by (simp add: gnb_flags_def Let_def)
  have upd: "update_flag pd (gnb_flags cfg0) ''config'' (FString []) path = Some ?fs"
    by (simp add: update_flag_def set_value_def)
  have "parse_flags pd (gnb_flags cfg0) [''--config'', path] = Parsed ?fs"
    by (simp add: flag_text_def bad_syntax_def cut_equals_def config upd)
  moreover have "parse_flags pd (gnb_flags cfg0) [flag_arg (''config'', path)] = Parsed ?fs"
    using parse_flags_arg [of "''config''" "gnb_flags cfg0" "FString []" pd path "[]"] config upd
    by (simp add: flag_name_def)
  ultimately have "parse_flags pd (gnb_flags cfg0) args = Parsed ?fs"
    using assms(4) by auto
  then show ?thesis
    by (simp add: gnb_command_def load gnb_settings_def Let_def gnb_flags_def getters)
qed

theorem gnb_file_settings_witness:
  "\<exists>cfg. gnb_command (\<lambda>p. Inr []) (\<lambda>b c. Inr (c\<lparr>RunPart := (RunPart c)\<lparr>NASPath := ''nas.hex'', NASHex := True\<rparr>\<rparr>)) (\<lambda>s. None)
      [''--config'', ''a.yaml''] = Runs cfg \<and> NASPath (RunPart cfg) = []"
  using gnb_file_settings [of "''a.yaml''" "\<lambda>p. Inr []" "[]"
      "\<lambda>b c. Inr (c\<lparr>RunPart := (RunPart c)\<lparr>NASPath := ''nas.hex'', NASHex := True\<rparr>\<rparr>)" _ "[''--config'', ''a.yaml'']" "\<lambda>s. None"]
  by auto

text \<open>C24: The flag parser accepts \<open>-config path\<close> and \<open>-config=path\<close>, but only the forms with two dashes
  name a file: with one dash the file is not even read, and both commands run with the defaults
  and report nothing.\<close>

theorem single_dash_config_ignored:
  assumes "path = [] \<or> hd path \<noteq> CHR ''-''"
    and "args = [''-config'', path] \<or> args = [''-config='' @ path]"
  shows "amf_command files unmarshal pd args = Runs (TransportPart Default)
    \<and> gnb_command files unmarshal pd args = Runs (Default\<lparr>TransportPart := (TransportPart Default)\<lparr>LocalPort := 0\<rparr>\<rparr>)"
proof -
  have "configPathFromArgs args = []"
    using assms by (cases path) auto
  then have load: "loaded_config files unmarshal args = Inr Default"
    by (simp add: loaded_config_def)
  have parse: "parse_flags pd fs args = Parsed (fs(''config'' \<mapsto> FString path))" if "fs ''config'' = Some (FString [])" for fs
    using assms(2) that
    by (auto simp: flag_text_def bad_syntax_def cut_equals_def update_flag_def set_value_def)
  have "parse_flags pd (amf_flags Default) args = Parsed ((amf_flags Default)(''config'' \<mapsto> FString path))"
    "parse_flags pd (gnb_flags Default) args = Parsed ((gnb_flags Default)(''config'' \<mapsto> FString path))"
    by (rule parse, simp add: amf_flags_def gnb_flags_def Let_def)+
  moreover have "ConnectTimeout (TransportPart Default) \<noteq> 0" "NASPath (RunPart Default) = []" "\<not> NASHex (RunPart Default)"
    "RunChannelCount (RunPart Default) = ChannelCount (TransportPart Default)"
    by (simp_all add: Default_def second_def zero_run_config_def)
  ultimately show ?thesis
    by (simp add: amf_command_def gnb_command_def load amf_settings_def gnb_settings_def Let_def amf_flags_def
        gnb_flags_def getters)
qed

theorem single_dash_config_ignored_witness:
  "amf_command (\<lambda>p. Inl ErrEOF) (\<lambda>b c. Inl ErrEOF) (\<lambda>s. None) [''-config'', ''a.yaml''] = Runs (TransportPart Default)"
  using single_dash_config_ignored [of "''a.yaml''" "[''-config'', ''a.yaml'']"] by simp

end
