(* ===== verification/Spec2Isabelle.thy ===== *)
theory Spec2Isabelle
  imports Prelude Wire Go_Strings Nas Float64 Metrics Stream_IO Transport Config Channel Fd_Conn Fd_Run
    Kernel_Channel Quic Load Load_Run App Net_Addr Tls Kernel_Socket Kernel_Addr Sctp Quic_Session
    Backend Flags Cli
begin

unbundle bit_operations_syntax

text \<open>
  A model of mock5g, a load generator for the N2 interface of a 5G core: an AMF server that
  answers framed requests and a gNB client that sends them, measures the answers and writes a
  CSV file, over three interchangeable transports. The program is \<open>cmd/mock5g\<close> and \<open>pkg/\<close>.

  \<^bold>\<open>Parts and theories.\<close> In the order in which the code is built:

  \<^item> \<open>Prelude\<close>: Go's \<open>int\<close> with wrap-around, slices, big-endian integers (\<open>encoding/binary\<close>), and
    error values with \<open>errors.Is\<close> and the timeout tests. \<open>Go_Strings\<close>: \<open>strings.TrimSpace\<close>,
    hexadecimal and decimal text. \<open>Float64\<close>: rounding of rationals to \<open>float64\<close>. \<open>Net_Addr\<close>:
    \<open>net.ParseIP\<close>. \<open>Flags\<close>: the package \<open>flag\<close>.
  \<^item> \<open>Wire\<close>: \<open>pkg/wire/frame.go\<close>, the frame record with \<open>Encode\<close> and \<open>Decode\<close>; the codec is an
    interpretation of a locale of prefix-free codes that the transports use to cut streams.
  \<^item> \<open>Nas\<close>: \<open>pkg/nas/template.go\<close>, the payload file.
  \<^item> \<open>Metrics\<close>: \<open>pkg/metrics/metrics.go\<close>, the collector, its snapshots, the percentiles and the CSV
    file.
  \<^item> \<open>Config\<close>: \<open>pkg/config/config.go\<close>. \<open>Cli\<close>: \<open>cmd/mock5g/main.go\<close>, the two commands with their
    flags, the settings that result and the exit status.
  \<^item> \<open>Transport\<close> and \<open>Channel\<close>: \<open>pkg/transport/transport.go\<close>. The locale \<open>message_channel\<close> is the
    contract between transports and applications: while the deadline of the call leaves time, a
    sent frame appears on the outgoing stream and a received one is the first of the incoming
    stream.
  \<^item> \<open>Stream_IO\<close>: \<open>io.ReadFull\<close> and \<open>writeAll\<close> of \<open>quic.go\<close> over the locales \<open>byte_source\<close> and
    \<open>byte_sink\<close>.
  \<^item> \<open>Fd_Conn\<close>, \<open>Fd_Run\<close>, \<open>Kernel_Channel\<close>, \<open>Kernel_Socket\<close>, \<open>Kernel_Addr\<close>:
    \<open>pkg/transport/sctpkernel/sctpkernel_linux.go\<close>, from the system calls up: the non-blocking
    connection with deadlines, first as functions, then with its mutex as a step relation for
    any number of goroutines, \<open>Send\<close> and \<open>Recv\<close>, listeners and sessions, addresses.
  \<^item> \<open>Quic\<close>, \<open>Quic_Session\<close>: \<open>pkg/transport/quic/quic.go\<close>. The stream of \<open>quic-go\<close> is the
    locale \<open>duplex_stream\<close>, which has \<open>message_channel\<close> as a sublocale; a call of the stream
    that does not return before the deadline of its direction may fail. It is interpreted on the
    kernel's connection and on a stream with a clock whose late calls do fail.
  \<^item> \<open>Sctp\<close>: \<open>pkg/transport/sctp/sctp.go\<close>. \<open>Tls\<close>: the TLS settings of the three transports.
    \<open>Backend\<close>: \<open>pkg/transport/backend/backend.go\<close> and \<open>Runner.open\<close> of \<open>load.go\<close>.
  \<^item> \<open>Load\<close>, \<open>Load_Run\<close>: \<open>pkg/load/load.go\<close>; the code of a worker as a function of its channel, and
    all workers together with the reporter as a step relation of atomic actions.
  \<^item> \<open>App\<close>: \<open>pkg/app\<close>, the server's accept loop and session loop and the client.

  \<^bold>\<open>How state and effects are modelled.\<close> A structure of the code is a record of the same fields,
  an error return a sum, and an operation a function on explicit state. An operation that can
  block returns an option; \<open>None\<close> means that it has not returned. The kernel is a \<open>world\<close> with
  the list of its future answers, so a statement about every world is a statement about every
  behaviour of the kernel, the clock and the context; a call consumes one answer, which is why
  the loops of the kernel transport terminate on the length of the script. Loops over foreign
  connections are \<open>partial_function (option)\<close>, and theorems that they return are proved as such.
  A mutex that is held for a whole operation makes it one step; the mutex of \<open>fdConn\<close>, which is
  not held during its system calls, is a component of the state in \<open>Fd_Run\<close>.

  \<^bold>\<open>What the lemmas show.\<close> \<open>Wire\<close>: the codec is a bijection between frames with payloads of at most
  65535 bytes and the byte strings that \<open>Decode\<close> accepts exactly. \<open>Kernel_Channel\<close> and \<open>Quic\<close>:
  framing is independent of fragmentation, and what happens after a failure. \<open>Fd_Run\<close> and
  \<open>Kernel_Socket\<close>: descriptors are closed exactly once, in every interleaving and on every error
  path, and what \<open>Dial\<close> calls before \<open>connect\<close>.
  \<open>Metrics\<close>: percentiles against the sorted samples, snapshots under concurrent updates, the CSV
  file read back. \<open>Load_Run\<close>: every request is accounted for exactly once in every interleaving;
  the worker as a function is one of its runs. \<open>App\<close> and this theory: worker and session agree
  over each transport, and a worker that missed one answer never catches up. \<open>Cli\<close>: which
  settings a command line gives.

  \<^bold>\<open>Bounds.\<close> No fuel is used except for the number of rounds of a worker or a session, which is a
  parameter of the statement, for the script of the kernel's answers, and for the number \<open>k\<close> of
  bytes for which a connection is \<open>up\<close> and a deadline is ahead; the statements that need \<open>k\<close> say
  how large it must be.

  \<^bold>\<open>Arguments.\<close> Code outside the repository is an argument of the definitions: the SCTP library,
  \<open>quic-go\<close>, the YAML decoder, the handshake and the record layer of \<open>crypto/tls\<close>, key and
  certificate generation, files, \<open>time.ParseDuration\<close>.

  \<^bold>\<open>Not modelled.\<close> Printing (\<open>PrintSummary\<close>, the \<open>amf listening\<close> line, \<open>usage\<close>), signal delivery, the
  50 ms pause after a failed accept, the shell scripts, and the stub of the kernel transport for
  other systems, whose two functions only return an error.
\<close>

section \<open>The whole exchange over QUIC\<close>

text \<open>C6: Client and server agree over QUIC as they do over kernel sockets. Over any two streams that
  are reliable and ordered and honour their deadlines, in whatever pieces they deliver, if the
  context of the session and that of the worker last for the whole exchange and every round ends
  within the timeout of its receive, then the worker sends exactly the bytes that the session
  reads and the session sends exactly the bytes that the worker reads; every request is answered
  and accepted, nothing is dropped and nothing is left over, and the recorded times are right.\<close>

theorem quic_end_to_end:
  assumes "duplex_stream st pend sent up rdl wdl ahead" and "duplex_stream sta penda senta upa rdla wdla aheada"
    and "length payload \<le> 0xFFFF"
    and "penda a = wire_bytes quic_frame (request_frames n payload 0 ts)"
    and "pend g = wire_bytes quic_frame (map amf_response (request_frames n payload 0 ts))"
    and "up k g" and "upa k a" and "length (penda a) + length (pend g) \<le> k"
    and "ahead (ctx_deadline dl) k g" and "aheada (ctx_deadline dla) k a"
    and "\<forall>i < length ts. ahead (ctx_deadline (round_deadline r dl (ts ! i)))
      (exchange_bytes quic_frame (take (Suc i) (request_frames n payload 0 ts))) g"
    and "\<forall>t \<in> set ts. in_int64 (fst t) \<and> in_int64 (snd (snd t) - fst t)"
  shows "\<exists>c g' a'.
    latency_rounds r (quic_channel st n) dl payload ts (0, new_collector, g) = Some (of_nat (length ts), c, g')
    \<and> handleSession (quic_channel sta m) dla (length ts) a = Some a'
    \<and> sent g' = sent g @ penda a \<and> senta a' = senta a @ pend g \<and> pend g' = [] \<and> penda a' = []
    \<and> tx c = of_nat (length ts) \<and> rx c = of_nat (length ts) \<and> dropTimeout c = 0 \<and> dropSendErr c = 0
    \<and> dropDecode c = 0 \<and> dropMismatch c = 0 \<and> dropOther c = 0
    \<and> latencyUS c = map (\<lambda>t. microseconds (snd (snd t) - fst t)) ts"
proof -
  let ?fs = "request_frames n payload 0 ts"
  have reqs: "filter (\<lambda>f. MsgType f = MsgReq) ?fs = ?fs"
    by (simp add: filter_id_conv request_frames_requests)
  note client_channel = duplex_stream.quic_message_channel [OF assms(1), of n]
    and server_channel = duplex_stream.quic_message_channel [OF assms(2), of m]
  have "pend g = wire_bytes quic_frame (map amf_response ?fs) @ []" "exchange_bytes quic_frame ?fs \<le> k"
    using assms(4,5,8) by (simp_all add: exchange_bytes_def)
  from message_channel.rounds_answered [where q = 0 and c = new_collector and r = r,
      OF client_channel assms(3) _ this(1) assms(6) this(2) assms(9,11)]
  obtain g' where client: "latency_rounds r (quic_channel st n) dl payload ts (0, new_collector, g)
      = Some (0 + of_nat (length ts), answered ts new_collector, g')" "pend g' = []"
      "sent g' = sent g @ wire_bytes quic_frame ?fs"
    by auto
  have "penda a = wire_bytes quic_frame ?fs @ []" "\<forall>f \<in> set ?fs. encodable f"
    "length (wire_bytes quic_frame ?fs)
      + length (wire_bytes quic_frame (map amf_response (filter (\<lambda>f. MsgType f = MsgReq) ?fs))) \<le> k"
    using assms(4,5,8) reqs request_frames_encodable [OF assms(3)] by simp_all
  from message_channel.session_serves [OF server_channel this(2,1) assms(7) this(3) assms(10)] reqs
  obtain a' where server: "handleSession (quic_channel sta m) dla (length ts) a = Some a'" "penda a' = []"
      "senta a' = senta a @ wire_bytes quic_frame (map amf_response ?fs)"
    by auto
  show ?thesis
    using client server assms(4,5) answered_counts [of ts new_collector]
      answered_latency [OF assms(12), of new_collector]
    by (auto simp: new_collector_def)
qed

text \<open>Every call returns at the time 5000; the receive of the round has until 1000002000.\<close>

theorem quic_end_to_end_witness:
  "\<exists>p k c g'. latency_rounds (RunPart Default) (quic_channel timed_stream 0) (Some 3000000000) [7] [(1000, 2000, 3001000)]
      (0, new_collector, \<lparr>t_pend = p, t_sent = [], t_calls = replicate k 5000, t_rdl = At 1, t_wdl = At 1\<rparr>) = Some (1, c, g')
    \<and> rx c = 1 \<and> latencyUS c = [3000] \<and> t_pend g' = [] \<and> round_deadline (RunPart Default) (Some 3000000000) (1000, 2000, 3001000) = Some 1000002000"
proof -
  let ?ts = "[(1000, 2000, 3001000)] :: (int \<times> int \<times> int) list"
  let ?fs = "request_frames 0 [7] 0 ?ts" and ?dl = "Some 3000000000 :: int option"
  let ?req = "wire_bytes quic_frame ?fs" and ?resp = "wire_bytes quic_frame (map amf_response ?fs)"
  let ?k = "length ?req + length ?resp"
  let ?s = "\<lambda>p. \<lparr>t_pend = p, t_sent = [], t_calls = replicate ?k 5000, t_rdl = At 1, t_wdl = At 1\<rparr>"
  have up: "timed_up ?k (?s p)" for p
    by (simp only: timed_up_def timed.simps length_replicate)
  have time: "timed_ahead (ctx_deadline d) i (?s p)" if "d = None \<or> (\<exists>t. d = Some t \<and> 5000 < t)" for d i p
    using that set_take_subset [of i "replicate ?k (5000 :: int)"]
    by (auto simp: timed_ahead_def ctx_deadline_def simp del: request_frames.simps list.map dest!: subsetD)
  have deadline: "round_deadline (RunPart Default) ?dl (1000, 2000, 3001000) = Some 1000002000"
    by (simp add: round_deadline_def with_timeout_def recvTimeout_def Default_def second_def)
  have rounds: "\<forall>i < length ?ts. timed_ahead (ctx_deadline (round_deadline (RunPart Default) ?dl (?ts ! i)))
      (exchange_bytes quic_frame (take (Suc i) ?fs)) (?s ?resp)"
    using deadline time by simp
  have range: "\<forall>t \<in> set ?ts. in_int64 (fst t) \<and> in_int64 (snd (snd t) - fst t)"
    by (simp add: in_int64_def min_int64_def max_int64_def)
  have len: "length [7 :: byte] \<le> 0xFFFF" by simp
  have pends: "t_pend (?s ?req) = ?req" "t_pend (?s ?resp) = ?resp"
    and fit: "length (t_pend (?s ?req)) + length (t_pend (?s ?resp)) \<le> ?k"
    by (simp_all only: timed.simps)
  have dl: "timed_ahead (ctx_deadline ?dl) ?k (?s ?resp)" and dla: "timed_ahead (ctx_deadline None) ?k (?s ?req)"
    by (rule time, simp)+
  from quic_end_to_end [where st = timed_stream and sta = timed_stream and pend = t_pend and penda = t_pend
      and sent = t_sent and senta = t_sent and up = timed_up and upa = timed_up and ahead = timed_ahead
      and aheada = timed_ahead and m = 0,
      OF timed_duplex.duplex_stream_axioms timed_duplex.duplex_stream_axioms len pends up up fit dl dla rounds range]
  have "\<exists>c g'. latency_rounds (RunPart Default) (quic_channel timed_stream 0) ?dl [7] ?ts (0, new_collector, ?s ?resp)
      = Some (1, c, g') \<and> rx c = 1 \<and> latencyUS c = [3000] \<and> t_pend g' = []"
    by (auto simp: microseconds_def go_div_def simp del: request_frames.simps)
  with deadline show ?thesis by blast
qed

section \<open>The default source address\<close>

lemma quad_resolves:
  "resolveSockAddr (dotted [a, b, c, d]) port = Inr (AF_INET, Inet4 [a, b, c, d] port)"
  using ParseIP_dotted [of "[a, b, c, d]"] To4_mapped [of "[a, b, c, d]"] by (simp add: resolveSockAddr_def)

lemma loopback_resolves: "resolveSockAddr (kernel_pickIP ''127.0.0.1'' ''0.0.0.0'') port = Inr (AF_INET, Inet4 [127, 0, 0, 1] port)"
proof -
  have "kernel_pickIP ''127.0.0.1'' ''0.0.0.0'' = dotted [127, 0, 0, 1]" by code_simp
  then show ?thesis by (simp only: quad_resolves)
qed

lemma default_local_ip: "LocalIP (TransportPart Default) = ''127.0.0.1''"
  by (simp add: Default_def)

text \<open>C25: A gNB over kernel SCTP that is given no local address binds its socket to the loopback address
  before it connects, whatever the remote address is. Whatever the other flags are, and
  whatever configuration file is read as long as it leaves the local address at its default, the
  system calls of \<open>Dial\<close> contain no \<open>bind\<close> and no \<open>connect\<close>, or one \<open>bind\<close> to 127.0.0.1 and any
  port with nothing but clean-up behind it, or that \<open>bind\<close> directly followed by the one
  \<open>connect\<close> to the remote address; a \<open>Dial\<close> that succeeds has made both. The default local
  address of the configuration, which suits the server, applies to the client as well.\<close>

theorem gnb_binds_loopback:
  assumes "\<forall>kv \<in> set kvs. flag_name (fst kv) \<and> fst kv \<in> dom (gnb_flags Default)"
    and "loaded_config files unmarshal (map flag_arg kvs) = Inr cfg0"
    and "LocalIP (TransportPart cfg0) = LocalIP (TransportPart Default)"
    and "gnb_command files unmarshal pd (map flag_arg kvs) = Runs cfg"
    and "''local-ip'' \<notin> fst ` set kvs" and "''local-port'' \<notin> fst ` set kvs"
    and "resolveSockAddr (RemoteIP (TransportPart cfg)) (RemotePort (TransportPart cfg)) = Inr (family, raddr)"
    and "handshake_ok enable" and "kernel_Dial enable (TransportPart cfg) w = Some (res, w')"
  shows "\<exists>cs. trace w' = trace w @ cs \<and> binds_before_connect (Inet4 [127, 0, 0, 1] 0) raddr (isl res) cs"
proof -
  from gnb_command_args [OF assms(1,2,4)] obtain fs where fs: "set_all pd (gnb_flags cfg0) kvs = Some fs"
    and cfg: "cfg = gnb_settings fs cfg0" by blast
  have absent: "map_of (rev kvs) n = None" if "n \<notin> fst ` set kvs" for n
    using that by (simp add: map_of_eq_None_iff)
  have "LocalIP (TransportPart cfg) = ''127.0.0.1''" "LocalPort (TransportPart cfg) = 0"
    using given_values(1) [OF fs, of "''local-ip''"] given_values(2) [OF fs, of "''local-port''"]
    by (simp_all add: cfg gnb_settings_def Let_def given_def absent [OF assms(5)] absent [OF assms(6)] gnb_flags_def
        assms(3) default_local_ip)
  then show ?thesis
    using kernel_Dial_calls [OF assms(8) _ _ assms(7,9), of AF_INET "Inet4 [127, 0, 0, 1] 0"] loopback_resolves [of 0]
    by simp
qed

theorem gnb_binds_loopback_witness:
  "\<exists>cfg res w'. gnb_command (\<lambda>p. Inl ErrEOF) (\<lambda>b c. Inr c) (\<lambda>s. None)
      (map flag_arg [(''transport'', ''sctp-kernel''), (''remote-ip'', ''10.0.0.10''), (''tls'', ''false'')]) = Runs cfg
    \<and> kernel_Dial (\<lambda>c s. None) (TransportPart cfg) (fresh_world (answers [7, 0, 0, 0])) = Some (Inr res, w')
    \<and> trace w' = [SysSocket 2, SysSetNonblock 7, SysBind 7 (Inet4 [127, 0, 0, 1] 0), SysConnect 7 (Inet4 [10, 0, 0, 10] 38412)]
    \<and> binds_before_connect (Inet4 [127, 0, 0, 1] 0) (Inet4 [10, 0, 0, 10] 38412) False (trace w')"
proof -
  let ?kvs = "[(''transport'', ''sctp-kernel''), (''remote-ip'', ''10.0.0.10''), (''tls'', ''false'')]"
  let ?files = "\<lambda>p. Inl ErrEOF :: go_error + bytes" and ?um = "\<lambda>b c. Inr c :: go_error + app_config" and ?pd = "\<lambda>s. None :: int option"
  let ?enable = "\<lambda>c s. None :: (go_error option \<times> fd_conn \<times> world) option"
  let ?w = "fresh_world (answers [7, 0, 0, 0])"
  have names: "\<forall>kv \<in> set ?kvs. flag_name (fst kv) \<and> fst kv \<in> dom (gnb_flags Default)"
    by (simp add: flag_name_def gnb_flags_def Let_def)
  have load: "loaded_config ?files ?um (map flag_arg ?kvs) = Inr Default"
    by (simp add: loaded_config_def flag_arg_def)
  have noflag: "parse_bool ''false'' = Some False" by code_simp
  obtain fs where fs: "set_all ?pd (gnb_flags Default) ?kvs = Some fs"
    and vals: "get_string fs ''remote-ip'' = ''10.0.0.10''" "get_string fs ''local-ip'' = ''127.0.0.1''"
      "get_int fs ''remote-port'' = 38412" "get_int fs ''local-port'' = 0" "\<not> get_bool fs ''tls''"
    by (simp add: gnb_flags_def Let_def update_flag_def set_value_def noflag getters)
      (simp add: Default_def)
  let ?cfg = "gnb_settings fs Default"
  have run: "gnb_command ?files ?um ?pd (map flag_arg ?kvs) = Runs ?cfg"
    using parse_flags_args [OF names, of ?pd] load fs by (simp add: gnb_command_def del: list.map)
  have ten: "dotted [10, 0, 0, 10] = ''10.0.0.10''" by code_simp
  have t: "RemoteIP (TransportPart ?cfg) = dotted [10, 0, 0, 10]" "RemotePort (TransportPart ?cfg) = 38412"
    "LocalIP (TransportPart ?cfg) = ''127.0.0.1''" "LocalPort (TransportPart ?cfg) = 0" "\<not> TLS (TransportPart ?cfg)"
    "ReadBuffer (TransportPart ?cfg) = 0" "WriteBuffer (TransportPart ?cfg) = 0"
    by (simp_all add: gnb_settings_def Let_def vals ten Default_def zero_config_def)
  have raddr: "resolveSockAddr (RemoteIP (TransportPart ?cfg)) (RemotePort (TransportPart ?cfg))
      = Inr (AF_INET, Inet4 [10, 0, 0, 10] 38412)"
    by (simp only: t quad_resolves)
  have ok: "handshake_ok ?enable" by (simp add: handshake_ok_def)
  have "\<exists>res w'. kernel_Dial ?enable (TransportPart ?cfg) ?w = Some (Inr res, w')
      \<and> trace w' = [SysSocket 2, SysSetNonblock 7, SysBind 7 (Inet4 [127, 0, 0, 1] 0), SysConnect 7 (Inet4 [10, 0, 0, 10] 38412)]"
    using t raddr loopback_resolves [of 0]
    by (simp add: kernel_Dial_def Let_def sys_call_def set_buffers_def bind_local_def await_connect_def start_session_def
        fresh_world_def answers_def called_def AF_INET_def ten)
  then obtain res w' where dial: "kernel_Dial ?enable (TransportPart ?cfg) ?w = Some (Inr res, w')"
    and tr: "trace w' = [SysSocket 2, SysSetNonblock 7, SysBind 7 (Inet4 [127, 0, 0, 1] 0), SysConnect 7 (Inet4 [10, 0, 0, 10] 38412)]"
    by blast
  have "''local-ip'' \<notin> fst ` set ?kvs" "''local-port'' \<notin> fst ` set ?kvs" by simp_all
  from gnb_binds_loopback [OF names load refl run this raddr ok dial] run dial tr show ?thesis
    by (auto simp: fresh_world_def simp del: list.map)
qed

end
